theory Spec2Isabelle
  imports Complex_Main
begin

section \<open>Values shared by the page script\<close>

text \<open>
  A file name handed to \<open>filenameToEmoji\<close> is a JavaScript string.  It is modelled as a
  \<open>string\<close> whose characters are the code units \<open>0..255\<close> (ASCII and Latin-1), which
  covers every name of the form \<open>emoji_u1f600.svg\<close>.  The string that
  \<open>String.fromCodePoint\<close> builds holds code points up to \<open>0x10FFFF\<close>, so it is a list
  of UTF-16 code units.
\<close>

type_synonym utf16 = "nat list"

datatype js_error = RangeError | Thrown string

section \<open>filenameToEmoji (script.js, lines 16-25)\<close>

text \<open>
  \<open>String.prototype.toLowerCase\<close> on code units below 256: the letters \<open>A..Z\<close> and
  \<open>U+00C0..U+00DE\<close> without the multiplication sign \<open>U+00D7\<close> move up by 32, every
  other unit is kept.
\<close>

definition lower_char :: "char \<Rightarrow> char" where
  "lower_char c =
     (let n = (of_char c :: nat)
      in if (65 \<le> n \<and> n \<le> 90) \<or> (192 \<le> n \<and> n \<le> 222 \<and> n \<noteq> 215)
         then char_of (n + 32) else c)"

definition toLowerCase :: "string \<Rightarrow> string" where
  "toLowerCase s = map lower_char s"

text \<open>
  \<open>s.split(sep)\<close> for a separator of one character: the pieces between the separators,
  always at least one piece.  The scan keeps the piece read so far.
\<close>

fun split_from :: "char \<Rightarrow> string \<Rightarrow> string \<Rightarrow> string list" where
  "split_from sep piece [] = [piece]"
| "split_from sep piece (c # cs) =
     (if c = sep then piece # split_from sep [] cs
      else split_from sep (piece @ [c]) cs)"

definition split_on :: "char \<Rightarrow> string \<Rightarrow> string list" where
  "split_on sep s = split_from sep [] s"

text \<open>\<open>.pop()\<close> on the array that \<open>split\<close> returned: its last piece.\<close>

definition pop :: "string list \<Rightarrow> string" where
  "pop pieces = last pieces"

text \<open>\<open>.replace(/^emoji_u/, '')\<close> and \<open>.replace(/\.svg$/, '')\<close>.\<close>

definition replace_prefix :: "string \<Rightarrow> string \<Rightarrow> string" where
  "replace_prefix p s = (if take (length p) s = p then drop (length p) s else s)"

definition replace_suffix :: "string \<Rightarrow> string \<Rightarrow> string" where
  "replace_suffix p s =
     (if length p \<le> length s \<and> drop (length s - length p) s = p
      then take (length s - length p) s else s)"

text \<open>
  \<open>parseInt(h, 16)\<close>: leading white space is skipped, one sign is read, a prefix
  \<open>0x\<close> or \<open>0X\<close> is dropped, and the longest run of hexadecimal digits is the value.
  With no digit the result is \<open>NaN\<close>, here \<open>None\<close>.  The model keeps the exact integer:
  \<open>String.fromCodePoint\<close> only accepts values up to \<open>0x10FFFF\<close>, where the doubles
  of JavaScript are exact, and rounding a larger value never brings it below that bound.
\<close>

definition is_space :: "char \<Rightarrow> bool" where
  "is_space c = ((of_char c :: nat) \<in> {9, 10, 11, 12, 13, 32, 160})"

definition digit_value :: "char \<Rightarrow> nat option" where
  "digit_value c =
     (let n = (of_char c :: nat)
      in if 48 \<le> n \<and> n \<le> 57 then Some (n - 48)
         else if 97 \<le> n \<and> n \<le> 102 then Some (n - 87)
         else if 65 \<le> n \<and> n \<le> 70 then Some (n - 55)
         else None)"

definition is_hex :: "char \<Rightarrow> bool" where
  "is_hex c = (digit_value c \<noteq> None)"

definition hex_value :: "string \<Rightarrow> nat" where
  "hex_value z = foldl (\<lambda>acc c. 16 * acc + (case digit_value c of Some d \<Rightarrow> d | None \<Rightarrow> 0)) 0 z"

definition parseInt16 :: "string \<Rightarrow> int option" where
  "parseInt16 h =
     (let s1 = dropWhile is_space h;
          neg = (s1 \<noteq> [] \<and> hd s1 = CHR ''-'');
          s2 = (if s1 \<noteq> [] \<and> (hd s1 = CHR ''+'' \<or> hd s1 = CHR ''-'') then tl s1 else s1);
          s3 = (if take 2 s2 = ''0x'' \<or> take 2 s2 = ''0X'' then drop 2 s2 else s2);
          z = takeWhile is_hex s3
      in if z = [] then None
         else Some ((if neg then - 1 else 1) * int (hex_value z)))"

text \<open>
  \<open>String.fromCodePoint(...)\<close>: a \<open>RangeError\<close> at the first argument that is
  \<open>NaN\<close>, negative or above \<open>0x10FFFF\<close>; otherwise the UTF-16 encoding of every
  code point, a surrogate pair from \<open>0x10000\<close> on.
\<close>

definition utf16_encode :: "nat \<Rightarrow> utf16" where
  "utf16_encode cp =
     (if cp < 0x10000 then [cp]
      else [0xD800 + (cp - 0x10000) div 0x400, 0xDC00 + (cp - 0x10000) mod 0x400])"

fun fromCodePoint :: "int option list \<Rightarrow> js_error + utf16" where
  "fromCodePoint [] = Inr []"
| "fromCodePoint (None # rest) = Inl RangeError"
| "fromCodePoint (Some n # rest) =
     (if n < 0 \<or> 0x10FFFF < n then Inl RangeError
      else (case fromCodePoint rest of
              Inl e \<Rightarrow> Inl e
            | Inr u \<Rightarrow> Inr (utf16_encode (nat n) @ u)))"

definition filenameToEmoji :: "string \<Rightarrow> js_error + utf16" where
  "filenameToEmoji name =
     (let hexes = split_on CHR ''_''
                    (replace_suffix ''.svg''
                      (replace_prefix ''emoji_u''
                        (pop (split_on CHR ''/'' (toLowerCase name)))))
      in fromCodePoint (map parseInt16 hexes))"


text \<open>
  The identifiers that the regular expressions of \<open>filenameToEmoji\<close> expect: the prefix
  \<open>emoji_u\<close>, groups of hexadecimal digits joined by \<open>_\<close>, the extension \<open>.svg\<close>.
  \<open>join_groups\<close> writes the groups with the delimiter between them.
\<close>

fun join_groups :: "string list \<Rightarrow> string" where
  "join_groups [] = []"
| "join_groups [g] = g"
| "join_groups (g # h # rest) = g @ ''_'' @ join_groups (h # rest)"

definition palette_identifier :: "string list \<Rightarrow> string" where
  "palette_identifier groups = ''emoji_u'' @ join_groups groups @ ''.svg''"

section \<open>renderFromResults (script.js, lines 94-156)\<close>

text \<open>
  The canvas is a record of what the function assigns: the backing size \<open>width\<close> and
  \<open>height\<close>, the CSS size in \<open>px\<close>, the factor of \<open>ctx.scale\<close>, the font size in
  \<open>px\<close> and the \<open>fillText\<close> calls in the order they are made.  Numbers that the script
  computes with \<open>scale\<close> are modelled as exact reals.
\<close>

record fillText =
  glyph :: utf16
  gx :: real
  gy :: real

record canvas =
  width :: nat
  height :: nat
  style_width :: nat
  style_height :: nat
  ctx_scale :: real
  font_px :: real
  drawn :: "fillText list"

text \<open>The literal of line 131, the character \<open>U+2B1C\<close>.\<close>

definition placeholder :: utf16 where
  "placeholder = [0x2B1C]"

text \<open>
  \<open>results[index] || placeholder\<close>: an index past the end reads \<open>undefined\<close>, and the
  empty string is falsy as well.
\<close>

definition entry_or_placeholder :: "utf16 list \<Rightarrow> nat \<Rightarrow> utf16" where
  "entry_or_placeholder results index =
     (if index < length results \<and> results ! index \<noteq> [] then results ! index else placeholder)"

definition draw_tile :: "utf16 list \<Rightarrow> nat \<Rightarrow> real \<Rightarrow> nat \<Rightarrow> nat \<Rightarrow> nat \<Rightarrow> fillText" where
  "draw_tile results tileSize offset x y index =
     \<lparr>glyph = entry_or_placeholder results index,
      gx = real (x * tileSize) + offset,
      gy = real (y * tileSize) + offset\<rparr>"

text \<open>The loop over \<open>x\<close> (line 130), which also advances \<open>index\<close>.\<close>

function x_loop ::
  "utf16 list \<Rightarrow> nat \<Rightarrow> nat \<Rightarrow> real \<Rightarrow> nat \<Rightarrow> nat \<Rightarrow> nat \<Rightarrow> fillText list
     \<Rightarrow> nat \<times> fillText list" where
  "x_loop results cols tileSize offset y x index calls =
     (if x < cols
      then x_loop results cols tileSize offset y (x + 1) (index + 1)
             (calls @ [draw_tile results tileSize offset x y index])
      else (index, calls))"
  by pat_completeness auto
termination
  by (relation "measure (\<lambda>(results, cols, tileSize, offset, y, x, index, calls). cols - x)") auto

declare x_loop.simps [simp del]

text \<open>The loop over \<open>y\<close> (line 129).\<close>

function y_loop ::
  "utf16 list \<Rightarrow> nat \<Rightarrow> nat \<Rightarrow> nat \<Rightarrow> real \<Rightarrow> nat \<Rightarrow> nat \<Rightarrow> fillText list
     \<Rightarrow> fillText list" where
  "y_loop results cols rows tileSize offset y index calls =
     (if y < rows
      then y_loop results cols rows tileSize offset (y + 1)
             (fst (x_loop results cols tileSize offset y 0 index calls))
             (snd (x_loop results cols tileSize offset y 0 index calls))
      else calls)"
  by pat_completeness auto
termination
  by (relation "measure (\<lambda>(results, cols, rows, tileSize, offset, y, index, calls). rows - y)") auto

declare y_loop.simps [simp del]

text \<open>
  The function sizes the canvas, awaits \<open>document.fonts.load\<close> and then draws.  The
  argument \<open>fonts\<close> is how that promise settled: \<open>None\<close> when it was fulfilled,
  \<open>Some e\<close> when it was rejected with \<open>e\<close>, in which case the function throws \<open>e\<close>
  with the canvas sized and nothing drawn.  The result is the error, if any, and the canvas.
\<close>

definition renderFromResults ::
  "utf16 list \<Rightarrow> nat \<Rightarrow> nat \<Rightarrow> nat \<Rightarrow> real \<Rightarrow> js_error option
     \<Rightarrow> js_error option \<times> canvas" where
  "renderFromResults results cols rows tileSize scale fonts =
     (let scaleOutput = 4;
          sized = \<lparr>width = cols * tileSize * scaleOutput,
                   height = rows * tileSize * scaleOutput,
                   style_width = cols * tileSize,
                   style_height = rows * tileSize,
                   ctx_scale = real scaleOutput,
                   font_px = 10,
                   drawn = []\<rparr>
      in case fonts of
           Some e \<Rightarrow> (Some e, sized)
         | None \<Rightarrow>
             (let offset = (real tileSize - real tileSize * scale) / 2
              in (None, sized\<lparr>font_px := real tileSize * scale,
                               drawn := y_loop results cols rows tileSize offset 0 0 []\<rparr>)))"

text \<open>
  Where a \<open>fillText\<close> call lands on the backing store: the context was scaled by
  \<open>ctx.scale(scaleOutput, scaleOutput)\<close> (line 116), so user coordinates are multiplied
  by that factor.
\<close>

definition pixel_origin :: "canvas \<Rightarrow> fillText \<Rightarrow> real \<times> real" where
  "pixel_origin c call = (ctx_scale c * gx call, ctx_scale c * gy call)"

section \<open>Steps 6 and 7 of the upload handler (script.js, lines 81-85)\<close>

definition tileSize :: nat where
  "tileSize = 8"

text \<open>\<open>results.map(filenameToEmoji)\<close>: the first name that fails to decode throws.\<close>

fun map_filenameToEmoji :: "string list \<Rightarrow> js_error + utf16 list" where
  "map_filenameToEmoji [] = Inr []"
| "map_filenameToEmoji (name # names) =
     (case filenameToEmoji name of
        Inl e \<Rightarrow> Inl e
      | Inr g \<Rightarrow>
          (case map_filenameToEmoji names of
             Inl e \<Rightarrow> Inl e
           | Inr gs \<Rightarrow> Inr (g # gs)))"

text \<open>
  The handler converts the matched file names and renders them with \<open>tileSize\<close> and the
  scale \<open>0.83\<close>.  \<open>Inl e\<close> is the \<open>catch\<close> block of line 88, reached with \<open>e\<close>.
\<close>

definition convert_and_render ::
  "string list \<Rightarrow> nat \<Rightarrow> nat \<Rightarrow> js_error option \<Rightarrow> js_error + canvas" where
  "convert_and_render results cols rows fonts =
     (case map_filenameToEmoji results of
        Inl e \<Rightarrow> Inl e
      | Inr glyphs \<Rightarrow>
          (case renderFromResults glyphs cols rows tileSize (83 / 100) fonts of
             (Some e, c) \<Rightarrow> Inl e
           | (None, c) \<Rightarrow> Inr c))"

section \<open>The worker channel of the page (script.js, lines 253-332)\<close>

text \<open>
  Messages of the page to the worker, and of the worker to the page, by their \<open>type\<close>
  field.  \<open>OTHER\<close> stands for a message of any other type.  A batch of colours is a list
  over a type \<open>'c\<close> of colours.
\<close>

datatype 'c request = INIT_WASM string string | MATCH_EMOJIS "'c list"

datatype reply = WASM_READY | MATCH_COMPLETE "string list" | ERROR string | OTHER string

datatype promise = Pending | Resolved "string list" | Rejected js_error

text \<open>
  The state of the page: the two globals of lines 256-257 (\<open>mosaicWorker\<close> is \<open>True\<close> once
  the \<open>Worker\<close> exists), the \<open>handleMessage\<close> listeners now registered on the worker,
  each with the promise it settles and the \<open>colors\<close> it closes over, in the order of their
  registration, the promises that \<open>matchEmojisInWorker\<close> has returned, in the order of the
  calls, and the messages posted to the worker so far.
\<close>

record 'c page =
  mosaicWorker :: bool
  workerReady :: bool
  listeners :: "(nat \<times> 'c list) list"
  promises :: "promise list"
  posted :: "'c request list"

definition initial_page :: "'c page" where
  "initial_page =
     \<lparr>mosaicWorker = False, workerReady = False, listeners = [], promises = [], posted = []\<rparr>"

definition initWorker :: "'c page \<Rightarrow> 'c page" where
  "initWorker s =
     (if mosaicWorker s then s
      else s\<lparr>mosaicWorker := True,
              posted := posted s @ [INIT_WASM ''build/full_mosaic.wasm'' ''kd_tree.json'']\<rparr>)"

text \<open>The two handlers that \<open>initWorker\<close> installs (lines 264-275).\<close>

definition onmessage :: "reply \<Rightarrow> 'c page \<Rightarrow> 'c page" where
  "onmessage e s = (case e of WASM_READY \<Rightarrow> s\<lparr>workerReady := True\<rparr> | _ \<Rightarrow> s)"

definition onerror :: "'c page \<Rightarrow> 'c page" where
  "onerror s = s\<lparr>workerReady := False\<rparr>"

text \<open>
  \<open>resolve\<close> and \<open>reject\<close> settle a promise that is still pending and do nothing to a
  settled one.
\<close>

definition settle :: "nat \<Rightarrow> promise \<Rightarrow> promise list \<Rightarrow> promise list" where
  "settle pid outcome ps =
     (if pid < length ps \<and> ps ! pid = Pending then ps[pid := outcome] else ps)"

text \<open>
  \<open>try { resolve(runMatchingAndGetResults(colors)) } catch (err) { reject(err) }\<close>, the
  fallback of lines 292-297 and 312-317.  The matcher \<open>runMatchingAndGetResults\<close> is
  defined outside the two source files; it is a parameter, a function that returns the file
  names or throws.
\<close>

definition try_local :: "('c list \<Rightarrow> js_error + string list) \<Rightarrow> 'c list \<Rightarrow> promise" where
  "try_local runMatchingAndGetResults colors =
     (case runMatchingAndGetResults colors of
        Inr results \<Rightarrow> Resolved results
      | Inl err \<Rightarrow> Rejected err)"

text \<open>
  One listener \<open>handleMessage\<close> (lines 302-319) receiving the message \<open>e\<close>.  The listener
  \<open>(pid, colors)\<close> settles the promise \<open>pid\<close>; \<open>removeEventListener\<close> takes this
  listener out.
\<close>

definition handleMessage ::
  "('c list \<Rightarrow> js_error + string list) \<Rightarrow> nat \<times> 'c list \<Rightarrow> reply \<Rightarrow> 'c page \<Rightarrow> 'c page" where
  "handleMessage runMatchingAndGetResults l e s =
     (case e of
        MATCH_COMPLETE results \<Rightarrow>
          s\<lparr>listeners := filter (\<lambda>l'. fst l' \<noteq> fst l) (listeners s),
            promises := settle (fst l) (Resolved results) (promises s)\<rparr>
      | ERROR err \<Rightarrow>
          s\<lparr>listeners := filter (\<lambda>l'. fst l' \<noteq> fst l) (listeners s),
            promises := settle (fst l) (try_local runMatchingAndGetResults (snd l)) (promises s)\<rparr>
      | _ \<Rightarrow> s)"

text \<open>
  A \<open>message\<close> event on the worker object: the \<open>onmessage\<close> handler runs first, then
  every listener that was registered when the event was dispatched, in order.
\<close>

definition message_event ::
  "('c list \<Rightarrow> js_error + string list) \<Rightarrow> reply \<Rightarrow> 'c page \<Rightarrow> 'c page" where
  "message_event runMatchingAndGetResults e s =
     fold (\<lambda>l. handleMessage runMatchingAndGetResults l e) (listeners s) (onmessage e s)"

text \<open>
  \<open>matchEmojisInWorker\<close> (lines 287-329) returns a new promise, here its number, and
  the new state of the page.
\<close>

definition matchEmojisInWorker ::
  "('c list \<Rightarrow> js_error + string list) \<Rightarrow> 'c list \<Rightarrow> 'c page \<Rightarrow> nat \<times> 'c page" where
  "matchEmojisInWorker runMatchingAndGetResults colors s =
     (let pid = length (promises s)
      in if \<not> workerReady s \<or> \<not> mosaicWorker s
         then (pid, s\<lparr>promises := promises s @ [try_local runMatchingAndGetResults colors]\<rparr>)
         else (pid, s\<lparr>promises := promises s @ [Pending],
                       listeners := listeners s @ [(pid, colors)],
                       posted := posted s @ [MATCH_EMOJIS colors]\<rparr>))"

section \<open>The page together with its worker\<close>

text \<open>
  Modelled from the spec: the worker script \<open>mosaic-worker.js\<close> is not among the sources.
  By the protocol of the specification the worker answers an initialisation request with
  one message, ready or error, and a match request with one message, the result of
  \<open>queryBatch\<close> on its copy of the index or an error.  \<open>ok\<close> says which of the two
  happens.
\<close>

definition worker_reply :: "('c list \<Rightarrow> string list) \<Rightarrow> bool \<Rightarrow> 'c request \<Rightarrow> reply" where
  "worker_reply queryBatch ok r =
     (case r of
        INIT_WASM wasmPath kdTreePath \<Rightarrow> (if ok then WASM_READY else ERROR ''init failed'')
      | MATCH_EMOJIS colors \<Rightarrow>
          (if ok then MATCH_COMPLETE (queryBatch colors) else ERROR ''match failed''))"

text \<open>
  The page, the number of posted messages that the worker has handled (it handles them in
  order), and the replies that are on their way to the page.
\<close>

record 'c world =
  pg :: "'c page"
  handled :: nat
  inbox :: "reply list"

definition initial_world :: "'c world" where
  "initial_world = \<lparr>pg = initial_page, handled = 0, inbox = []\<rparr>"

text \<open>
  What can happen: the script calls \<open>initWorker\<close> (line 332); the upload handler calls
  \<open>matchEmojisInWorker\<close> with a batch; the worker handles its next message, with success
  or not; the next reply reaches the page; an \<open>error\<close> event fires on the worker object.
\<close>

datatype 'c event = PageLoad | Match "'c list" | WorkerHandles bool | Deliver | WorkerFault

definition step ::
  "('c list \<Rightarrow> js_error + string list) \<Rightarrow> ('c list \<Rightarrow> string list) \<Rightarrow> 'c event \<Rightarrow> 'c world
     \<Rightarrow> 'c world" where
  "step runMatchingAndGetResults queryBatch ev w =
     (case ev of
        PageLoad \<Rightarrow> w\<lparr>pg := initWorker (pg w)\<rparr>
      | Match colors \<Rightarrow> w\<lparr>pg := snd (matchEmojisInWorker runMatchingAndGetResults colors (pg w))\<rparr>
      | WorkerHandles ok \<Rightarrow>
          (if handled w < length (posted (pg w))
           then w\<lparr>handled := handled w + 1,
                   inbox := inbox w @ [worker_reply queryBatch ok (posted (pg w) ! handled w)]\<rparr>
           else w)
      | Deliver \<Rightarrow>
          (case inbox w of
             [] \<Rightarrow> w
           | e # rest \<Rightarrow> w\<lparr>pg := message_event runMatchingAndGetResults e (pg w), inbox := rest\<rparr>)
      | WorkerFault \<Rightarrow> (if mosaicWorker (pg w) then w\<lparr>pg := onerror (pg w)\<rparr> else w))"

definition run ::
  "('c list \<Rightarrow> js_error + string list) \<Rightarrow> ('c list \<Rightarrow> string list) \<Rightarrow> 'c event list
     \<Rightarrow> 'c world \<Rightarrow> 'c world" where
  "run runMatchingAndGetResults queryBatch evs w =
     foldl (\<lambda>w ev. step runMatchingAndGetResults queryBatch ev w) w evs"

section \<open>Invariants of the page and of the channel\<close>

text \<open>
  Every registered listener belongs to a promise of its own that is still pending.
\<close>

definition page_inv :: "'c page \<Rightarrow> bool" where
  "page_inv s \<longleftrightarrow>
     distinct (map fst (listeners s))
     \<and> list_all (\<lambda>l. fst l < length (promises s) \<and> promises s ! fst l = Pending) (listeners s)"

text \<open>
  The number of \<open>WASM_READY\<close> messages that can still reach the page: initialisation
  requests that the worker has not handled yet, and ready messages on their way.
\<close>

definition is_init :: "'c request \<Rightarrow> bool" where
  "is_init r = (case r of INIT_WASM wasmPath kdTreePath \<Rightarrow> True | MATCH_EMOJIS colors \<Rightarrow> False)"

definition ready_pending :: "'c world \<Rightarrow> nat" where
  "ready_pending w =
     length (filter is_init (drop (handled w) (posted (pg w))))
     + length (filter (\<lambda>e. e = WASM_READY) (inbox w))"

definition channel_inv :: "'c world \<Rightarrow> bool" where
  "channel_inv w \<longleftrightarrow>
     handled w \<le> length (posted (pg w))
     \<and> ready_pending w \<le> 1
     \<and> (workerReady (pg w) \<longrightarrow> ready_pending w = 0)
     \<and> (\<not> mosaicWorker (pg w) \<longrightarrow> ready_pending w = 0 \<and> \<not> workerReady (pg w))"

definition channel_spent :: "'c world \<Rightarrow> bool" where
  "channel_spent w \<longleftrightarrow>
     handled w \<le> length (posted (pg w)) \<and> mosaicWorker (pg w)
     \<and> ready_pending w = 0 \<and> \<not> workerReady (pg w)"

text \<open>
  The three stages of a request with the empty batch that was posted as message number
  \<open>k\<close> for the promise \<open>pid\<close>: the worker has not handled it yet; its reply is the next
  message that the page will receive; the reply has settled the promise.
\<close>

definition awaiting_reply ::
  "('c list \<Rightarrow> js_error + string list) \<Rightarrow> ('c list \<Rightarrow> string list) \<Rightarrow> nat \<Rightarrow> nat \<Rightarrow> 'c world
     \<Rightarrow> bool" where
  "awaiting_reply runMatchingAndGetResults queryBatch pid k w \<longleftrightarrow>
     (promises (pg w) ! pid = Pending \<and> (pid, []) \<in> set (listeners (pg w))
        \<and> handled w = k \<and> inbox w = []
        \<and> k < length (posted (pg w)) \<and> posted (pg w) ! k = MATCH_EMOJIS [])
     \<or> (promises (pg w) ! pid = Pending \<and> (pid, []) \<in> set (listeners (pg w))
        \<and> k < handled w \<and> inbox w \<noteq> []
        \<and> (hd (inbox w) = MATCH_COMPLETE (queryBatch [])
             \<or> hd (inbox w) = ERROR ''match failed''))
     \<or> (k < handled w
        \<and> (promises (pg w) ! pid = Resolved (queryBatch [])
             \<or> promises (pg w) ! pid = try_local runMatchingAndGetResults []))"
section \<open>Properties of filenameToEmoji\<close>

lemma of_char_lower_char:
  "(of_char (lower_char c) :: nat) =
     (if (65 \<le> (of_char c :: nat) \<and> (of_char c :: nat) \<le> 90)
         \<or> (192 \<le> (of_char c :: nat) \<and> (of_char c :: nat) \<le> 222 \<and> (of_char c :: nat) \<noteq> 215)
      then of_char c + 32 else of_char c)"
  by (simp add: lower_char_def Let_def of_char_of)

lemma lower_char_idem: "lower_char (lower_char c) = lower_char c"
proof -
  have "(of_char (lower_char (lower_char c)) :: nat) = of_char (lower_char c)"
    by (simp add: of_char_lower_char)
  then show ?thesis by simp
qed

lemma lower_char_eq_slash: "lower_char c = CHR ''/'' \<longleftrightarrow> c = CHR ''/''"
proof -
  have "((of_char (lower_char c) :: nat) = of_char CHR ''/'') = ((of_char c :: nat) = of_char CHR ''/'')"
    by (simp add: of_char_lower_char)
  then show ?thesis by (simp only: of_char_eq_iff)
qed

lemma toLowerCase_idem: "toLowerCase (toLowerCase s) = toLowerCase s"
  by (simp add: toLowerCase_def lower_char_idem)

lemma toLowerCase_append: "toLowerCase (a @ b) = toLowerCase a @ toLowerCase b"
  by (simp add: toLowerCase_def)

lemma split_from_not_Nil: "split_from sep piece s \<noteq> []"
  by (induction s arbitrary: piece) auto

lemma last_split_from_sep:
  "last (split_from sep piece (x @ sep # y)) = last (split_from sep [] y)"
proof (induction x arbitrary: piece)
  case Nil
  show ?case by (simp add: split_from_not_Nil)
next
  case (Cons c x)
  then show ?case by (simp add: split_from_not_Nil)
qed

lemma split_from_no_sep: "sep \<notin> set s \<Longrightarrow> split_from sep piece s = [piece @ s]"
  by (induction s arbitrary: piece) auto

lemma last_split_from_set:
  "set (last (split_from sep piece s)) \<subseteq> set piece \<union> set s"
proof (induction s arbitrary: piece)
  case Nil
  then show ?case by simp
next
  case (Cons c s)
  show ?case
  proof (cases "c = sep")
    case True
    have "set (last (split_from sep [] s)) \<subseteq> set s" using Cons.IH [of "[]"] by simp
    with True show ?thesis by (auto simp: split_from_not_Nil)
  next
    case False
    have "set (last (split_from sep (piece @ [c]) s)) \<subseteq> set (piece @ [c]) \<union> set s"
      by (rule Cons.IH)
    with False show ?thesis by auto
  qed
qed

lemma last_split_from_free:
  "sep \<notin> set piece \<Longrightarrow> sep \<notin> set (last (split_from sep piece s))"
proof (induction s arbitrary: piece)
  case Nil
  then show ?case by simp
next
  case (Cons c s)
  then show ?case by (auto simp: split_from_not_Nil)
qed

lemma pop_split_prefix:
  "pop (split_on sep (p @ sep # s)) = pop (split_on sep s)"
  by (simp add: pop_def split_on_def last_split_from_sep)

lemma pop_split_no_sep: "sep \<notin> set s \<Longrightarrow> pop (split_on sep s) = s"
  by (simp add: pop_def split_on_def split_from_no_sep)

lemma toLowerCase_fixed:
  "set t \<subseteq> lower_char ` A \<Longrightarrow> toLowerCase t = t"
  unfolding toLowerCase_def
  by (induction t) (auto simp: lower_char_idem)

lemma segment_stable:
  "pop (split_on CHR ''/'' (toLowerCase (pop (split_on CHR ''/'' (toLowerCase s)))))
     = pop (split_on CHR ''/'' (toLowerCase s))"
proof -
  let ?t = "pop (split_on CHR ''/'' (toLowerCase s))"
  have "set ?t \<subseteq> set (toLowerCase s)"
    using last_split_from_set [of "CHR ''/''" "[]" "toLowerCase s"]
    by (simp add: pop_def split_on_def)
  then have "set ?t \<subseteq> lower_char ` set s" by (simp add: toLowerCase_def)
  then have low: "toLowerCase ?t = ?t" by (rule toLowerCase_fixed)
  have "CHR ''/'' \<notin> set ?t"
    using last_split_from_free [of "CHR ''/''" "[]" "toLowerCase s"]
    by (simp add: pop_def split_on_def)
  then have "pop (split_on CHR ''/'' ?t) = ?t" by (rule pop_split_no_sep)
  with low show ?thesis by simp
qed

text \<open>
  Claim C10.  The decoded glyph depends only on the lowercased last path segment of the
  name: a directory prefix \<open>p/\<close> in front of a name changes nothing, a name and its
  lowercase form (so also a name written with uppercase hexadecimal digits) decode alike,
  and decoding the lowercased last segment alone gives the result for the whole name.
\<close>

theorem filenameToEmoji_last_segment_lowercase:
  "filenameToEmoji (p @ ''/'' @ s) = filenameToEmoji s
   \<and> filenameToEmoji (toLowerCase s) = filenameToEmoji s
   \<and> filenameToEmoji (pop (split_on CHR ''/'' (toLowerCase s))) = filenameToEmoji s"
proof -
  have "toLowerCase (p @ ''/'' @ s) = toLowerCase p @ CHR ''/'' # toLowerCase s"
    by (simp add: toLowerCase_def lower_char_eq_slash)
  then have a: "filenameToEmoji (p @ ''/'' @ s) = filenameToEmoji s"
    by (simp only: filenameToEmoji_def pop_split_prefix)
  have b: "filenameToEmoji (toLowerCase s) = filenameToEmoji s"
    by (simp only: filenameToEmoji_def toLowerCase_idem)
  have c: "filenameToEmoji (pop (split_on CHR ''/'' (toLowerCase s))) = filenameToEmoji s"
    by (simp only: filenameToEmoji_def segment_stable)
  from a b c show ?thesis by simp
qed


lemma is_hex_range:
  "is_hex c \<longleftrightarrow> (48 \<le> (of_char c :: nat) \<and> (of_char c :: nat) \<le> 57)
      \<or> (97 \<le> (of_char c :: nat) \<and> (of_char c :: nat) \<le> 102)
      \<or> (65 \<le> (of_char c :: nat) \<and> (of_char c :: nat) \<le> 70)"
  by (simp add: is_hex_def digit_value_def Let_def)

lemma digit_value_lower_char: "is_hex c \<Longrightarrow> digit_value (lower_char c) = digit_value c"
  unfolding is_hex_range digit_value_def Let_def of_char_lower_char
  by auto

lemma is_hex_lower_char: "is_hex c \<Longrightarrow> is_hex (lower_char c)"
  by (simp add: is_hex_def digit_value_lower_char)

lemma is_hex_not_special:
  assumes "is_hex c"
  shows "c \<noteq> CHR ''_''" and "c \<noteq> CHR ''/''" and "c \<noteq> CHR ''x''" and "c \<noteq> CHR ''X''"
    and "c \<noteq> CHR ''+''" and "c \<noteq> CHR ''-''" and "\<not> is_space c"
  using assms by (auto simp: is_hex_range is_space_def)

lemma hex_value_foldl_lower:
  "list_all is_hex z \<Longrightarrow>
   foldl (\<lambda>acc c. 16 * acc + (case digit_value c of Some d \<Rightarrow> d | None \<Rightarrow> 0)) a (map lower_char z)
   = foldl (\<lambda>acc c. 16 * acc + (case digit_value c of Some d \<Rightarrow> d | None \<Rightarrow> 0)) a z"
  by (induction z arbitrary: a) (simp_all add: digit_value_lower_char)

lemma hex_value_toLowerCase: "list_all is_hex z \<Longrightarrow> hex_value (toLowerCase z) = hex_value z"
  by (simp add: hex_value_def toLowerCase_def hex_value_foldl_lower)

lemma list_all_is_hex_toLowerCase: "list_all is_hex z \<Longrightarrow> list_all is_hex (toLowerCase z)"
  by (induction z) (simp_all add: toLowerCase_def is_hex_lower_char)

lemma parseInt16_hex:
  assumes "z \<noteq> []" and "list_all is_hex z"
  shows "parseInt16 z = Some (int (hex_value z))"
proof -
  obtain c cs where z: "z = c # cs" using assms(1) by (cases z) auto
  have c: "is_hex c" using assms(2) z by simp
  have s1: "dropWhile is_space z = z" using z is_hex_not_special(7) [OF c] by simp
  have no_prefix: "take 2 z \<noteq> ''0x'' \<and> take 2 z \<noteq> ''0X''"
  proof (cases cs)
    case Nil
    with z show ?thesis by simp
  next
    case (Cons d ds)
    with assms(2) z have "is_hex d" by simp
    with Cons z is_hex_not_special(3,4) [of d] show ?thesis by auto
  qed
  have tw: "takeWhile is_hex z = z" using assms(2) by (induction z) simp_all
  have hd: "hd z \<noteq> CHR ''+''" "hd z \<noteq> CHR ''-''"
    using z is_hex_not_special(5,6) [OF c] by simp_all
  show ?thesis
    unfolding parseInt16_def s1 Let_def
    using no_prefix hd assms(1) by (simp add: tw)
qed

lemma parseInt16_group:
  assumes "g \<noteq> []" and "list_all is_hex g"
  shows "parseInt16 (toLowerCase g) = Some (int (hex_value g))"
proof -
  have "toLowerCase g \<noteq> []" using assms(1) by (simp add: toLowerCase_def)
  moreover have "list_all is_hex (toLowerCase g)" using assms(2) by (rule list_all_is_hex_toLowerCase)
  ultimately have "parseInt16 (toLowerCase g) = Some (int (hex_value (toLowerCase g)))"
    by (rule parseInt16_hex)
  then show ?thesis using assms(2) by (simp add: hex_value_toLowerCase)
qed

lemma split_from_join_groups:
  assumes "groups \<noteq> []" and "\<forall>g\<in>set groups. CHR ''_'' \<notin> set g"
  shows "split_from CHR ''_'' piece (join_groups groups) = (piece @ hd groups) # tl groups"
  using assms
proof (induction groups arbitrary: piece rule: join_groups.induct)
  case 1
  then show ?case by simp
next
  case (2 g)
  then show ?case by (simp add: split_from_no_sep)
next
  case (3 g h rest)
  have step: "\<And>p a b. CHR ''_'' \<notin> set a \<Longrightarrow>
      split_from CHR ''_'' p (a @ CHR ''_'' # b) = (p @ a) # split_from CHR ''_'' [] b"
  proof -
    fix p :: string and a b
    show "CHR ''_'' \<notin> set a \<Longrightarrow>
      split_from CHR ''_'' p (a @ CHR ''_'' # b) = (p @ a) # split_from CHR ''_'' [] b"
      by (induction a arbitrary: p) auto
  qed
  have "split_from CHR ''_'' [] (join_groups (h # rest)) = ([] @ hd (h # rest)) # tl (h # rest)"
    using 3 by simp
  with 3 step [of g piece "join_groups (h # rest)"] show ?case by simp
qed

lemma split_on_join_groups:
  "groups \<noteq> [] \<Longrightarrow> \<forall>g\<in>set groups. CHR ''_'' \<notin> set g \<Longrightarrow>
   split_on CHR ''_'' (join_groups groups) = groups"
  by (simp add: split_on_def split_from_join_groups)

lemma toLowerCase_join_groups:
  "toLowerCase (join_groups groups) = join_groups (map toLowerCase groups)"
proof (induction groups rule: join_groups.induct)
  case 1
  then show ?case by (simp add: toLowerCase_def)
next
  case (2 g)
  then show ?case by simp
next
  case (3 g h rest)
  have "lower_char CHR ''_'' = CHR ''_''" by (simp add: lower_char_def)
  with 3 show ?case by (simp add: toLowerCase_def)
qed

lemma replace_prefix_append: "replace_prefix p (p @ s) = s"
  by (simp add: replace_prefix_def)

lemma replace_suffix_append: "replace_suffix p (s @ p) = s"
  by (simp add: replace_suffix_def)

lemma fromCodePoint_all:
  "\<forall>g\<in>set groups. v g \<le> (0x10FFFF :: nat) \<Longrightarrow>
   fromCodePoint (map (\<lambda>g. Some (int (v g))) groups)
     = Inr (concat (map (\<lambda>g. utf16_encode (v g)) groups))"
  by (induction groups) auto

lemma toLowerCase_affixes:
  "toLowerCase ''emoji_u'' = ''emoji_u''" "toLowerCase ''.svg'' = ''.svg''"
  by (simp_all add: toLowerCase_def lower_char_def)

lemma filenameToEmoji_body:
  assumes "CHR ''/'' \<notin> set body"
  shows "filenameToEmoji (''emoji_u'' @ body @ ''.svg'')
         = fromCodePoint (map parseInt16 (split_on CHR ''_'' (toLowerCase body)))"
proof -
  have low: "toLowerCase (''emoji_u'' @ body @ ''.svg'') = ''emoji_u'' @ toLowerCase body @ ''.svg''"
    by (simp only: toLowerCase_append toLowerCase_affixes)
  have "CHR ''/'' \<notin> set (toLowerCase body)"
  proof
    assume "CHR ''/'' \<in> set (toLowerCase body)"
    then obtain x where "x \<in> set body" and "lower_char x = CHR ''/''"
      by (auto simp: toLowerCase_def)
    then have "CHR ''/'' \<in> set body" by (simp add: lower_char_eq_slash)
    with assms show False by simp
  qed
  then have "CHR ''/'' \<notin> set (''emoji_u'' @ toLowerCase body @ ''.svg'')" by simp
  then have "pop (split_on CHR ''/'' (''emoji_u'' @ toLowerCase body @ ''.svg''))
      = ''emoji_u'' @ toLowerCase body @ ''.svg''"
    by (rule pop_split_no_sep)
  then show ?thesis
    by (simp only: filenameToEmoji_def low Let_def replace_prefix_append replace_suffix_append)
qed

lemma filenameToEmoji_groups:
  assumes "groups \<noteq> []"
    and "\<forall>g\<in>set groups. g \<noteq> [] \<and> list_all is_hex g \<and> hex_value g \<le> 0x10FFFF"
  shows "filenameToEmoji (palette_identifier groups)
           = Inr (concat (map (\<lambda>g. utf16_encode (hex_value g)) groups))"
proof -
  have hexes: "\<forall>g\<in>set groups. \<forall>c\<in>set g. is_hex c"
    using assms(2) by (auto simp: list_all_iff)
  have no_slash: "CHR ''/'' \<notin> set (join_groups groups)"
    using hexes
  proof (induction groups rule: join_groups.induct)
    case 1
    then show ?case by simp
  next
    case (2 g)
    then show ?case using is_hex_not_special(2) by auto
  next
    case (3 g h rest)
    then show ?case using is_hex_not_special(2) by auto
  qed
  have lowered: "\<forall>g\<in>set (map toLowerCase groups). CHR ''_'' \<notin> set g"
  proof
    fix g assume "g \<in> set (map toLowerCase groups)"
    then obtain g0 where g0: "g0 \<in> set groups" "g = toLowerCase g0" by auto
    with assms(2) have "list_all is_hex g0" by simp
    then have "list_all is_hex g" using g0(2) by (simp add: list_all_is_hex_toLowerCase)
    then show "CHR ''_'' \<notin> set g" using is_hex_not_special(1) by (auto simp: list_all_iff)
  qed
  have "split_on CHR ''_'' (toLowerCase (join_groups groups)) = map toLowerCase groups"
    using assms(1) lowered by (simp add: toLowerCase_join_groups split_on_join_groups)
  moreover have "map parseInt16 (map toLowerCase groups) = map (\<lambda>g. Some (int (hex_value g))) groups"
    using assms(2) by (simp add: parseInt16_group)
  moreover have "\<forall>g\<in>set groups. hex_value g \<le> 0x10FFFF" using assms(2) by simp
  ultimately show ?thesis
    unfolding palette_identifier_def
    by (simp only: filenameToEmoji_body [OF no_slash] fromCodePoint_all)
qed


text \<open>
  Claim C6.  A well-formed identifier is the prefix \<open>emoji_u\<close>, one or more groups joined
  by \<open>_\<close>, and the extension \<open>.svg\<close>, where every group is a non-empty run of
  hexadecimal digits (of either case) that denotes a code point, that is a value up to
  \<open>0x10FFFF\<close>.  Decoding such an identifier returns the characters of the code points of
  its groups, in order; the identifier of the single code point \<open>0x1F600\<close> decodes to
  that one character, the surrogate pair \<open>D83D DE00\<close> in UTF-16.
\<close>

theorem filenameToEmoji_well_formed:
  assumes "groups \<noteq> []"
    and "\<forall>g\<in>set groups. g \<noteq> [] \<and> list_all is_hex g \<and> hex_value g \<le> 0x10FFFF"
  shows "filenameToEmoji (palette_identifier groups)
           = Inr (concat (map (\<lambda>g. utf16_encode (hex_value g)) groups))
         \<and> filenameToEmoji ''emoji_u1f600.svg'' = Inr (utf16_encode 0x1F600)
         \<and> utf16_encode 0x1F600 = [0xD83D, 0xDE00]"
proof -
  have general: "filenameToEmoji (palette_identifier groups)
           = Inr (concat (map (\<lambda>g. utf16_encode (hex_value g)) groups))"
    using assms by (rule filenameToEmoji_groups)
  have digits: "list_all is_hex ''1f600''"
    by (simp add: is_hex_def digit_value_def)
  have val: "hex_value ''1f600'' = 0x1F600"
    by (simp add: hex_value_def digit_value_def)
  have "filenameToEmoji (palette_identifier [''1f600''])
           = Inr (concat (map (\<lambda>g. utf16_encode (hex_value g)) [''1f600'']))"
    by (rule filenameToEmoji_groups) (use digits val in simp_all)
  then have single: "filenameToEmoji ''emoji_u1f600.svg'' = Inr (utf16_encode 0x1F600)"
    by (simp add: palette_identifier_def val)
  have pair: "utf16_encode 0x1F600 = [0xD83D, 0xDE00]"
    by (simp add: utf16_encode_def)
  from general single pair show ?thesis by simp
qed

theorem filenameToEmoji_well_formed_witness:
  "[''1F468'', ''200d'', ''1f469''] \<noteq> []
   \<and> list_all (\<lambda>g. g \<noteq> [] \<and> list_all is_hex g \<and> hex_value g \<le> 0x10FFFF)
         [''1F468'', ''200d'', ''1f469'']
   \<and> filenameToEmoji ''emoji_u1F468_200d_1f469.svg''
       = Inr [0xD83D, 0xDC68, 0x200D, 0xD83D, 0xDC69]"
proof -
  have h1: "[''1F468'', ''200d'', ''1f469''] \<noteq> []" by simp
  have h2: "\<forall>g\<in>set [''1F468'', ''200d'', ''1f469''].
         g \<noteq> [] \<and> list_all is_hex g \<and> hex_value g \<le> 0x10FFFF"
    by (simp add: is_hex_def digit_value_def hex_value_def)
  have "filenameToEmoji (palette_identifier [''1F468'', ''200d'', ''1f469''])
           = Inr (concat (map (\<lambda>g. utf16_encode (hex_value g)) [''1F468'', ''200d'', ''1f469'']))"
    using filenameToEmoji_well_formed [OF h1 h2] by simp
  then have "filenameToEmoji ''emoji_u1F468_200d_1f469.svg''
       = Inr [0xD83D, 0xDC68, 0x200D, 0xD83D, 0xDC69]"
    by (simp add: palette_identifier_def hex_value_def digit_value_def utf16_encode_def)
  with h1 h2 show ?thesis by (simp add: list_all_iff)
qed

theorem filenameToEmoji_last_segment_lowercase_witness:
  "filenameToEmoji (''build/emojis'' @ ''/'' @ ''EMOJI_U1F600.SVG'') = Inr [0xD83D, 0xDE00]
   \<and> filenameToEmoji ''EMOJI_U1F600.SVG'' = Inr [0xD83D, 0xDE00]"
proof -
  have low: "toLowerCase ''EMOJI_U1F600.SVG'' = ''emoji_u1f600.svg''"
    by (simp add: toLowerCase_def lower_char_def char_of_eq_iff)
  have digits: "list_all is_hex ''1f600''"
    by (simp add: is_hex_def digit_value_def)
  have val: "hex_value ''1f600'' = 0x1F600"
    by (simp add: hex_value_def digit_value_def)
  have "filenameToEmoji (palette_identifier [''1f600''])
           = Inr (concat (map (\<lambda>g. utf16_encode (hex_value g)) [''1f600'']))"
    by (rule filenameToEmoji_groups) (use digits val in simp_all)
  then have base: "filenameToEmoji ''emoji_u1f600.svg'' = Inr [0xD83D, 0xDE00]"
    by (simp add: palette_identifier_def val utf16_encode_def)
  have upper: "filenameToEmoji ''EMOJI_U1F600.SVG'' = Inr [0xD83D, 0xDE00]"
    using filenameToEmoji_last_segment_lowercase [of "''build/emojis''" "''EMOJI_U1F600.SVG''"]
      low base by simp
  then show ?thesis
    using filenameToEmoji_last_segment_lowercase [of "''build/emojis''" "''EMOJI_U1F600.SVG''"]
    by simp
qed

lemma filenameToEmoji_grinning: "filenameToEmoji ''emoji_u1f600.svg'' = Inr [0xD83D, 0xDE00]"
proof -
  have digits: "list_all is_hex ''1f600''"
    by (simp add: is_hex_def digit_value_def)
  have val: "hex_value ''1f600'' = 0x1F600"
    by (simp add: hex_value_def digit_value_def)
  have "filenameToEmoji (palette_identifier [''1f600''])
           = Inr (concat (map (\<lambda>g. utf16_encode (hex_value g)) [''1f600'']))"
    by (rule filenameToEmoji_groups) (use digits val in simp_all)
  then show ?thesis
    by (simp add: palette_identifier_def val utf16_encode_def)
qed

lemma filenameToEmoji_zz: "filenameToEmoji ''emoji_uzz.svg'' = Inl RangeError"
proof -
  have "filenameToEmoji (''emoji_u'' @ ''zz'' @ ''.svg'')
         = fromCodePoint (map parseInt16 (split_on CHR ''_'' (toLowerCase ''zz'')))"
    by (rule filenameToEmoji_body) simp
  moreover have "toLowerCase ''zz'' = ''zz''"
    by (simp add: toLowerCase_def lower_char_def)
  moreover have "split_on CHR ''_'' ''zz'' = [''zz'']"
    by (simp add: split_on_def)
  moreover have "parseInt16 ''zz'' = None"
    by (simp add: parseInt16_def is_space_def is_hex_def digit_value_def)
  ultimately show ?thesis by simp
qed

section \<open>Properties of the composition\<close>


lemma x_loop_row:
  assumes "x \<le> cols" and "index = y * cols + x"
    and "calls = map (\<lambda>i. draw_tile results ts offset (i mod cols) (i div cols) i) [0..<index]"
  shows "x_loop results cols ts offset y x index calls
         = (y * cols + cols,
            map (\<lambda>i. draw_tile results ts offset (i mod cols) (i div cols) i) [0..<y * cols + cols])"
  using assms
proof (induction results cols ts offset y x index calls rule: x_loop.induct)
  case (1 results cols ts offset y x index calls)
  show ?case
  proof (cases "x < cols")
    case True
    have idx: "index mod cols = x" "index div cols = y"
      using True "1.prems"(2) by simp_all
    have "calls @ [draw_tile results ts offset x y index]
          = map (\<lambda>i. draw_tile results ts offset (i mod cols) (i div cols) i) [0..<index + 1]"
      using "1.prems"(3) idx by simp
    moreover have "x + 1 \<le> cols" "index + 1 = y * cols + (x + 1)"
      using True "1.prems"(2) by simp_all
    ultimately have "x_loop results cols ts offset y (x + 1) (index + 1)
             (calls @ [draw_tile results ts offset x y index])
         = (y * cols + cols,
            map (\<lambda>i. draw_tile results ts offset (i mod cols) (i div cols) i) [0..<y * cols + cols])"
      using "1.IH" [OF True] by blast
    with True show ?thesis by (subst x_loop.simps) simp
  next
    case False
    with "1.prems" have "x = cols" by simp
    with "1.prems" False show ?thesis by (subst x_loop.simps) simp
  qed
qed

lemma y_loop_grid:
  assumes "y \<le> rows" and "index = y * cols"
    and "calls = map (\<lambda>i. draw_tile results ts offset (i mod cols) (i div cols) i) [0..<index]"
  shows "y_loop results cols rows ts offset y index calls
         = map (\<lambda>i. draw_tile results ts offset (i mod cols) (i div cols) i) [0..<rows * cols]"
  using assms
proof (induction results cols rows ts offset y index calls rule: y_loop.induct)
  case (1 results cols rows ts offset y index calls)
  show ?case
  proof (cases "y < rows")
    case True
    have row: "x_loop results cols ts offset y 0 index calls
         = (y * cols + cols,
            map (\<lambda>i. draw_tile results ts offset (i mod cols) (i div cols) i) [0..<y * cols + cols])"
      using "1.prems" by (intro x_loop_row) simp_all
    have "y_loop results cols rows ts offset (y + 1)
             (fst (x_loop results cols ts offset y 0 index calls))
             (snd (x_loop results cols ts offset y 0 index calls))
          = map (\<lambda>i. draw_tile results ts offset (i mod cols) (i div cols) i) [0..<rows * cols]"
      using True by (intro "1.IH") (simp_all add: row)
    with True show ?thesis by (subst y_loop.simps) simp
  next
    case False
    with "1.prems" have "y = rows" by simp
    with "1.prems" False show ?thesis by (subst y_loop.simps) simp
  qed
qed

lemma drawn_renderFromResults:
  "drawn (snd (renderFromResults results cols rows ts scale None))
   = map (\<lambda>i. draw_tile results ts ((real ts - real ts * scale) / 2) (i mod cols) (i div cols) i)
       [0..<rows * cols]"
  by (simp add: renderFromResults_def Let_def y_loop_grid)


lemma nth_drawn_renderFromResults:
  "i < rows * cols \<Longrightarrow>
   drawn (snd (renderFromResults results cols rows ts scale None)) ! i
   = draw_tile results ts ((real ts - real ts * scale) / 2) (i mod cols) (i div cols) i"
  by (simp add: drawn_renderFromResults)

lemma grid_index:
  assumes "x < (cols :: nat)" and "y < (rows :: nat)"
  shows "y * cols + x < rows * cols" and "(y * cols + x) mod cols = x" and "(y * cols + x) div cols = y"
proof -
  have "y * cols + x < y * cols + cols" using assms(1) by simp
  also have "\<dots> = (y + 1) * cols" by simp
  also have "\<dots> \<le> rows * cols"
  proof -
    have "y + 1 \<le> rows" using assms(2) by simp
    then show ?thesis by (rule mult_le_mono1)
  qed
  finally show "y * cols + x < rows * cols" .
  show "(y * cols + x) mod cols = x" using assms(1) by simp
  show "(y * cols + x) div cols = y" using assms(1) by simp
qed

lemma fromCodePoint_not_empty:
  "fromCodePoint xs = Inr u \<Longrightarrow> xs \<noteq> [] \<Longrightarrow> u \<noteq> []"
proof (cases xs)
  case Nil
  then show "xs \<noteq> [] \<Longrightarrow> u \<noteq> []" by simp
next
  case (Cons a rest)
  assume r: "fromCodePoint xs = Inr u"
  show "u \<noteq> []"
  proof (cases a)
    case None
    with Cons r show ?thesis by simp
  next
    case (Some n)
    with Cons r show ?thesis
      by (auto simp: utf16_encode_def split: if_splits sum.splits)
  qed
qed

lemma filenameToEmoji_not_empty:
  assumes "filenameToEmoji name = Inr g"
  shows "g \<noteq> []"
proof -
  let ?hexes = "split_on CHR ''_''
                    (replace_suffix ''.svg''
                      (replace_prefix ''emoji_u''
                        (pop (split_on CHR ''/'' (toLowerCase name)))))"
  have "fromCodePoint (map parseInt16 ?hexes) = Inr g"
    using assms by (simp add: filenameToEmoji_def Let_def)
  moreover have "map parseInt16 ?hexes \<noteq> []"
    by (simp add: split_on_def split_from_not_Nil)
  ultimately show ?thesis by (rule fromCodePoint_not_empty)
qed

lemma map_filenameToEmoji_Inr:
  "map_filenameToEmoji names = Inr glyphs \<Longrightarrow>
   length glyphs = length names \<and> (\<forall>i<length names. filenameToEmoji (names ! i) = Inr (glyphs ! i))"
proof (induction names arbitrary: glyphs)
  case Nil
  then show ?case by simp
next
  case (Cons name names)
  from Cons.prems obtain g gs where g: "filenameToEmoji name = Inr g"
    and gs: "map_filenameToEmoji names = Inr gs" and glyphs: "glyphs = g # gs"
    by (auto split: sum.splits)
  from Cons.IH [OF gs] have ih: "length gs = length names"
    "\<forall>i<length names. filenameToEmoji (names ! i) = Inr (gs ! i)" by simp_all
  show ?case
  proof (intro conjI allI impI)
    show "length glyphs = length (name # names)" using ih(1) glyphs by simp
  next
    fix i assume "i < length (name # names)"
    then show "filenameToEmoji ((name # names) ! i) = Inr (glyphs ! i)"
      using g ih(2) glyphs by (cases i) simp_all
  qed
qed

lemma map_filenameToEmoji_Inl:
  "i < length names \<Longrightarrow> filenameToEmoji (names ! i) = Inl e \<Longrightarrow>
   \<exists>e'. map_filenameToEmoji names = Inl e'"
proof (induction names arbitrary: i)
  case Nil
  then show ?case by simp
next
  case (Cons name names)
  show ?case
  proof (cases i)
    case 0
    with Cons.prems show ?thesis by simp
  next
    case (Suc j)
    with Cons.prems have "\<exists>e'. map_filenameToEmoji names = Inl e'"
      by (intro Cons.IH [of j]) simp_all
    then show ?thesis by (auto split: sum.splits)
  qed
qed

text \<open>
  Claim C9.  For every \<open>cols\<close>, \<open>rows\<close> and \<open>tileSize\<close>, whether or not the fonts
  load, the backing store of the canvas is \<open>cols * tileSize * 4\<close> by
  \<open>rows * tileSize * 4\<close> pixels (the output scale is the constant 4) and its display size,
  kept in separate attributes, is \<open>cols * tileSize\<close> by \<open>rows * tileSize\<close>; with
  \<open>tileSize = 8\<close>, \<open>cols = 4\<close> and \<open>rows = 3\<close> the backing store is 128 by 96.
\<close>

theorem canvas_backing_and_display_size:
  "width (snd (renderFromResults results cols rows ts scale fonts)) = cols * ts * 4
   \<and> height (snd (renderFromResults results cols rows ts scale fonts)) = rows * ts * 4
   \<and> style_width (snd (renderFromResults results cols rows ts scale fonts)) = cols * ts
   \<and> style_height (snd (renderFromResults results cols rows ts scale fonts)) = rows * ts
   \<and> width (snd (renderFromResults results 4 3 8 scale fonts)) = 128
   \<and> height (snd (renderFromResults results 4 3 8 scale fonts)) = 96"
  by (cases fonts) (simp_all add: renderFromResults_def Let_def)

theorem canvas_backing_and_display_size_witness:
  "width (snd (renderFromResults [] 135 169 8 (83 / 100) None)) = 4320
   \<and> height (snd (renderFromResults [] 135 169 8 (83 / 100) None)) = 5408
   \<and> style_width (snd (renderFromResults [] 135 169 8 (83 / 100) None)) = 1080
   \<and> style_height (snd (renderFromResults [] 135 169 8 (83 / 100) None)) = 1352"
  using canvas_backing_and_display_size [of "[]" 135 169 8 "83 / 100" None] by simp

text \<open>
  Claim C8.  The tile in column \<open>x\<close> of row \<open>y\<close> is the call number \<open>y * cols + x\<close>.
  It draws the entry of that same index of the results, the entry itself when the index is
  in range and the entry is not empty and the character \<open>U+2B1C\<close> otherwise, at
  \<open>(x * tileSize + offset, y * tileSize + offset)\<close> with
  \<open>offset = (tileSize - tileSize * scale) / 2\<close> on both axes, in a font of
  \<open>tileSize * scale\<close> pixels; the offset is zero for the scale 1.  On the backing store,
  scaled by 4, the call lands at \<open>x * tileSize * 4\<close> and \<open>y * tileSize * 4\<close> plus four
  times the offset: for \<open>tileSize = 8\<close>, four columns and the index 5 that is
  \<open>(32, 32)\<close> when the scale is 1.
\<close>

theorem glyph_position_row_major:
  assumes "x < cols" and "y < rows"
  shows "glyph (drawn (snd (renderFromResults results cols rows ts scale None)) ! (y * cols + x))
           = (if y * cols + x < length results \<and> results ! (y * cols + x) \<noteq> []
              then results ! (y * cols + x) else [0x2B1C])
       \<and> gx (drawn (snd (renderFromResults results cols rows ts scale None)) ! (y * cols + x))
           = real (x * ts) + (real ts - real ts * scale) / 2
       \<and> gy (drawn (snd (renderFromResults results cols rows ts scale None)) ! (y * cols + x))
           = real (y * ts) + (real ts - real ts * scale) / 2
       \<and> length (drawn (snd (renderFromResults results cols rows ts scale None))) = rows * cols
       \<and> font_px (snd (renderFromResults results cols rows ts scale None)) = real ts * scale
       \<and> (real ts - real ts * 1) / 2 = 0
       \<and> pixel_origin (snd (renderFromResults results cols rows ts scale None))
            (drawn (snd (renderFromResults results cols rows ts scale None)) ! (y * cols + x))
           = (real (x * ts * 4) + 4 * ((real ts - real ts * scale) / 2),
              real (y * ts * 4) + 4 * ((real ts - real ts * scale) / 2))
       \<and> pixel_origin (snd (renderFromResults results 4 3 8 1 None))
            (drawn (snd (renderFromResults results 4 3 8 1 None)) ! 5) = (32, 32)"
proof -
  note idx = grid_index [OF assms]
  have call: "drawn (snd (renderFromResults results cols rows ts scale None)) ! (y * cols + x)
      = draw_tile results ts ((real ts - real ts * scale) / 2) x y (y * cols + x)"
    using nth_drawn_renderFromResults [OF idx(1), of results ts scale] idx(2,3) by simp
  have entry: "glyph (draw_tile results ts ((real ts - real ts * scale) / 2) x y (y * cols + x))
      = (if y * cols + x < length results \<and> results ! (y * cols + x) \<noteq> []
         then results ! (y * cols + x) else [0x2B1C])"
    by (simp add: draw_tile_def entry_or_placeholder_def placeholder_def)
  have len: "length (drawn (snd (renderFromResults results cols rows ts scale None))) = rows * cols"
    by (simp add: drawn_renderFromResults)
  have scale4: "ctx_scale (snd (renderFromResults results cols rows ts scale None)) = 4"
    and font: "font_px (snd (renderFromResults results cols rows ts scale None)) = real ts * scale"
    by (simp_all add: renderFromResults_def Let_def)
  have five: "drawn (snd (renderFromResults results 4 3 8 1 None)) ! 5
      = draw_tile results 8 ((real 8 - real 8 * 1) / 2) (5 mod 4) (5 div 4) 5"
    by (rule nth_drawn_renderFromResults) simp
  have scale4': "ctx_scale (snd (renderFromResults results 4 3 8 1 None)) = 4"
    by (simp add: renderFromResults_def Let_def)
  have origin: "pixel_origin (snd (renderFromResults results 4 3 8 1 None))
            (drawn (snd (renderFromResults results 4 3 8 1 None)) ! 5) = (32, 32)"
    unfolding five pixel_origin_def scale4' by (simp add: draw_tile_def)
  have pos: "gx (draw_tile results ts ((real ts - real ts * scale) / 2) x y (y * cols + x))
        = real (x * ts) + (real ts - real ts * scale) / 2"
    "gy (draw_tile results ts ((real ts - real ts * scale) / 2) x y (y * cols + x))
        = real (y * ts) + (real ts - real ts * scale) / 2"
    by (simp_all add: draw_tile_def)
  have pix: "pixel_origin (snd (renderFromResults results cols rows ts scale None))
            (draw_tile results ts ((real ts - real ts * scale) / 2) x y (y * cols + x))
           = (real (x * ts * 4) + 4 * ((real ts - real ts * scale) / 2),
              real (y * ts * 4) + 4 * ((real ts - real ts * scale) / 2))"
    unfolding pixel_origin_def scale4 pos by (simp add: algebra_simps)
  show ?thesis
    unfolding call origin entry pos pix len font by simp
qed

theorem glyph_position_row_major_witness:
  "(1 :: nat) < 4 \<and> (1 :: nat) < 3
   \<and> glyph (drawn (snd (renderFromResults
        [[0x2B1B], [0x2B1B], [0x2B1B], [0x2B1B], [0x2B1B], [0xD83D, 0xDE00]] 4 3 8 (83 / 100) None)) ! 5)
       = [0xD83D, 0xDE00]
   \<and> gx (drawn (snd (renderFromResults
        [[0x2B1B], [0x2B1B], [0x2B1B], [0x2B1B], [0x2B1B], [0xD83D, 0xDE00]] 4 3 8 (83 / 100) None)) ! 5)
       = 217 / 25
   \<and> gy (drawn (snd (renderFromResults
        [[0x2B1B], [0x2B1B], [0x2B1B], [0x2B1B], [0x2B1B], [0xD83D, 0xDE00]] 4 3 8 (83 / 100) None)) ! 5)
       = 217 / 25
   \<and> pixel_origin (snd (renderFromResults
        [[0x2B1B], [0x2B1B], [0x2B1B], [0x2B1B], [0x2B1B], [0xD83D, 0xDE00]] 4 3 8 (83 / 100) None))
        (drawn (snd (renderFromResults
        [[0x2B1B], [0x2B1B], [0x2B1B], [0x2B1B], [0x2B1B], [0xD83D, 0xDE00]] 4 3 8 (83 / 100) None)) ! 5)
       = (868 / 25, 868 / 25)
   \<and> (2 :: nat) < 4
   \<and> glyph (drawn (snd (renderFromResults
        [[0x2B1B], [0x2B1B], [0x2B1B], [0x2B1B], [0x2B1B], [0xD83D, 0xDE00]] 4 3 8 (83 / 100) None)) ! 6)
       = [0x2B1C]"
proof -
  have h1: "(1 :: nat) < 4" and h2: "(1 :: nat) < 3" and h3: "(2 :: nat) < 4" by simp_all
  show ?thesis
    using glyph_position_row_major [OF h1 h2,
        of "[[0x2B1B], [0x2B1B], [0x2B1B], [0x2B1B], [0x2B1B], [0xD83D, 0xDE00]]" 8 "83 / 100"]
      glyph_position_row_major [OF h3 h2,
        of "[[0x2B1B], [0x2B1B], [0x2B1B], [0x2B1B], [0x2B1B], [0xD83D, 0xDE00]]" 8 "83 / 100"]
    by simp
qed

text \<open>
  Claim C7, as stated, fails: the handler decodes every identifier before it composes, and
  one identifier that does not decode ends the run in the error handler with no tile
  drawn, also not the tiles whose identifiers decode.
\<close>

theorem decode_failure_stops_composition:
  "filenameToEmoji ''emoji_u1f600.svg'' = Inr [0xD83D, 0xDE00]
   \<and> filenameToEmoji ''emoji_uzz.svg'' = Inl RangeError
   \<and> convert_and_render [''emoji_u1f600.svg'', ''emoji_uzz.svg''] 2 1 None = Inl RangeError"
  by (simp add: convert_and_render_def filenameToEmoji_grinning filenameToEmoji_zz)

text \<open>
  Claim C7, amended.  In \<open>renderFromResults\<close> the tile of index \<open>i\<close> shows the
  placeholder exactly when \<open>i\<close> is past the end of the results (or the entry is the empty
  string) and its own entry otherwise, whatever the other entries are.  When every
  identifier decodes, the handler composes the decoded glyphs: a tile in range shows the
  glyph of its own identifier and a tile out of range the placeholder.  When some identifier
  does not decode, the handler ends in its error handler and composes nothing.
\<close>

theorem composition_placeholder_out_of_range:
  "(\<forall>i<rows * cols.
      glyph (drawn (snd (renderFromResults results cols rows ts scale None)) ! i)
        = (if i < length results \<and> results ! i \<noteq> [] then results ! i else placeholder))
   \<and> (map_filenameToEmoji names = Inr glyphs \<longrightarrow>
        convert_and_render names cols rows None
          = Inr (snd (renderFromResults glyphs cols rows tileSize (83 / 100) None))
        \<and> (\<forall>i<rows * cols.
              glyph (drawn (snd (renderFromResults glyphs cols rows tileSize (83 / 100) None)) ! i)
                = (if i < length names then glyphs ! i else placeholder))
        \<and> (\<forall>i<length names. filenameToEmoji (names ! i) = Inr (glyphs ! i)))
   \<and> ((\<exists>i<length names. \<exists>e. filenameToEmoji (names ! i) = Inl e) \<longrightarrow>
        (\<exists>e. convert_and_render names cols rows fonts = Inl e))"
proof (intro conjI impI)
  show "\<forall>i<rows * cols.
      glyph (drawn (snd (renderFromResults results cols rows ts scale None)) ! i)
        = (if i < length results \<and> results ! i \<noteq> [] then results ! i else placeholder)"
    by (simp add: nth_drawn_renderFromResults draw_tile_def entry_or_placeholder_def)
next
  assume ok: "map_filenameToEmoji names = Inr glyphs"
  show "convert_and_render names cols rows None
          = Inr (snd (renderFromResults glyphs cols rows tileSize (83 / 100) None))"
    by (simp add: convert_and_render_def ok renderFromResults_def Let_def)
next
  assume ok: "map_filenameToEmoji names = Inr glyphs"
  note dec = map_filenameToEmoji_Inr [OF ok]
  show "\<forall>i<rows * cols.
      glyph (drawn (snd (renderFromResults glyphs cols rows tileSize (83 / 100) None)) ! i)
        = (if i < length names then glyphs ! i else placeholder)"
  proof (intro allI impI)
    fix i assume i: "i < rows * cols"
    have "i < length names \<Longrightarrow> glyphs ! i \<noteq> []"
      using dec filenameToEmoji_not_empty by blast
    then show "glyph (drawn (snd (renderFromResults glyphs cols rows tileSize (83 / 100) None)) ! i)
        = (if i < length names then glyphs ! i else placeholder)"
      using i dec by (simp add: nth_drawn_renderFromResults draw_tile_def entry_or_placeholder_def)
  qed
next
  assume ok: "map_filenameToEmoji names = Inr glyphs"
  from map_filenameToEmoji_Inr [OF ok]
  show "\<forall>i<length names. filenameToEmoji (names ! i) = Inr (glyphs ! i)" by simp
next
  assume "\<exists>i<length names. \<exists>e. filenameToEmoji (names ! i) = Inl e"
  then obtain i e where "i < length names" "filenameToEmoji (names ! i) = Inl e" by blast
  then obtain e' where "map_filenameToEmoji names = Inl e'"
    using map_filenameToEmoji_Inl by blast
  then show "\<exists>e. convert_and_render names cols rows fonts = Inl e"
    by (simp add: convert_and_render_def)
qed


theorem composition_placeholder_out_of_range_witness:
  "map_filenameToEmoji [''emoji_u1f600.svg''] = Inr [[0xD83D, 0xDE00]]
   \<and> convert_and_render [''emoji_u1f600.svg''] 2 1 None
       = Inr (snd (renderFromResults [[0xD83D, 0xDE00]] 2 1 tileSize (83 / 100) None))
   \<and> glyph (drawn (snd (renderFromResults [[0xD83D, 0xDE00]] 2 1 tileSize (83 / 100) None)) ! 0)
       = [0xD83D, 0xDE00]
   \<and> glyph (drawn (snd (renderFromResults [[0xD83D, 0xDE00]] 2 1 tileSize (83 / 100) None)) ! 1)
       = placeholder
   \<and> (\<exists>e. convert_and_render [''emoji_uzz.svg''] 2 1 None = Inl e)"
proof -
  have ok: "map_filenameToEmoji [''emoji_u1f600.svg''] = Inr [[0xD83D, 0xDE00]]"
    by (simp add: filenameToEmoji_grinning)
  note t = composition_placeholder_out_of_range [where rows = 1 and cols = 2
      and names = "[''emoji_u1f600.svg'']" and glyphs = "[[0xD83D, 0xDE00]]"]
  from t ok have run: "convert_and_render [''emoji_u1f600.svg''] 2 1 None
       = Inr (snd (renderFromResults [[0xD83D, 0xDE00]] 2 1 tileSize (83 / 100) None))"
    by blast
  from t ok have tiles: "\<forall>i<1 * 2.
      glyph (drawn (snd (renderFromResults [[0xD83D, 0xDE00]] 2 1 tileSize (83 / 100) None)) ! i)
        = (if i < length [''emoji_u1f600.svg''] then [[0xD83D, 0xDE00]] ! i else placeholder)"
    by blast
  from tiles have t0: "glyph (drawn (snd (renderFromResults [[0xD83D, 0xDE00]] 2 1 tileSize (83 / 100) None)) ! 0)
       = [0xD83D, 0xDE00]"
    by simp
  have "(1 :: nat) < 1 * 2" by simp
  with tiles have "glyph (drawn (snd (renderFromResults [[0xD83D, 0xDE00]] 2 1 tileSize (83 / 100) None)) ! 1)
       = (if 1 < length [''emoji_u1f600.svg''] then [[0xD83D, 0xDE00]] ! 1 else placeholder)"
    by blast
  then have t1: "glyph (drawn (snd (renderFromResults [[0xD83D, 0xDE00]] 2 1 tileSize (83 / 100) None)) ! 1)
       = placeholder"
    by simp
  have bad: "\<exists>i<length [''emoji_uzz.svg'']. \<exists>e. filenameToEmoji ([''emoji_uzz.svg''] ! i) = Inl e"
    by (simp add: filenameToEmoji_zz)
  have fail: "\<exists>e. convert_and_render [''emoji_uzz.svg''] 2 1 None = Inl e"
    using composition_placeholder_out_of_range [where names = "[''emoji_uzz.svg'']"
        and cols = 2 and rows = 1 and fonts = None] bad
    by blast
  from ok run t0 t1 fail show ?thesis by simp
qed

section \<open>Properties of the worker channel\<close>

lemma handleMessage_fields:
  "mosaicWorker (handleMessage rm l e s) = mosaicWorker s"
  "workerReady (handleMessage rm l e s) = workerReady s"
  "posted (handleMessage rm l e s) = posted s"
  by (cases e; simp add: handleMessage_def)+

lemma fold_handleMessage_fields:
  "mosaicWorker (fold (\<lambda>l. handleMessage rm l e) ls s) = mosaicWorker s
   \<and> workerReady (fold (\<lambda>l. handleMessage rm l e) ls s) = workerReady s
   \<and> posted (fold (\<lambda>l. handleMessage rm l e) ls s) = posted s"
  by (induction ls arbitrary: s) (simp_all add: handleMessage_fields)

lemma message_event_fields:
  "mosaicWorker (message_event rm e s) = mosaicWorker s"
  "workerReady (message_event rm e s) = (e = WASM_READY \<or> workerReady s)"
  "posted (message_event rm e s) = posted s"
  by (cases e; simp add: message_event_def fold_handleMessage_fields onmessage_def)+

lemma fold_handleMessage_idle:
  assumes "\<And>l s. handleMessage rm l e s = s"
  shows "fold (\<lambda>l. handleMessage rm l e) ls s = s"
  by (induction ls) (simp_all add: assms)

lemma message_event_idle:
  "message_event rm WASM_READY s = s\<lparr>workerReady := True\<rparr>"
  "message_event rm (OTHER t) s = s"
  by (simp_all add: message_event_def onmessage_def handleMessage_def fold_handleMessage_idle)

text \<open>What a reply of type \<open>MATCH_COMPLETE\<close> or \<open>ERROR\<close> makes of the listener \<open>l\<close>.\<close>

lemma fold_handleMessage_settles:
  assumes eff: "\<And>l s. handleMessage rm l e s
            = s\<lparr>listeners := filter (\<lambda>l'. fst l' \<noteq> fst l) (listeners s),
                 promises := settle (fst l) (out l) (promises s)\<rparr>"
    and "distinct (map fst ls)"
    and "\<forall>l\<in>set ls. fst l < length (promises s) \<and> promises s ! fst l = Pending"
  shows "length (promises (fold (\<lambda>l. handleMessage rm l e) ls s)) = length (promises s)
       \<and> (\<forall>l\<in>set ls. promises (fold (\<lambda>l. handleMessage rm l e) ls s) ! fst l = out l)
       \<and> (\<forall>i. i \<notin> fst ` set ls \<longrightarrow>
             promises (fold (\<lambda>l. handleMessage rm l e) ls s) ! i = promises s ! i)
       \<and> listeners (fold (\<lambda>l. handleMessage rm l e) ls s)
           = filter (\<lambda>l'. fst l' \<notin> fst ` set ls) (listeners s)"
  using assms(2,3)
proof (induction ls arbitrary: s)
  case Nil
  then show ?case by simp
next
  case (Cons l ls)
  let ?s1 = "handleMessage rm l e s"
  let ?f = "fold (\<lambda>l. handleMessage rm l e) ls ?s1"
  have l: "fst l < length (promises s)" "promises s ! fst l = Pending"
    using Cons.prems(2) by simp_all
  have p1: "promises ?s1 = (promises s)[fst l := out l]"
    using l by (simp add: eff settle_def)
  have l1: "listeners ?s1 = filter (\<lambda>l'. fst l' \<noteq> fst l) (listeners s)"
    by (simp add: eff)
  have d: "distinct (map fst ls)" and fresh: "fst l \<notin> fst ` set ls"
    using Cons.prems(1) by simp_all
  have pend: "\<forall>l'\<in>set ls. fst l' < length (promises ?s1) \<and> promises ?s1 ! fst l' = Pending"
  proof
    fix l' assume l': "l' \<in> set ls"
    then have "fst l' \<noteq> fst l" using fresh by (metis image_eqI)
    moreover have "fst l' < length (promises s)" "promises s ! fst l' = Pending"
      using Cons.prems(2) l' by simp_all
    ultimately show "fst l' < length (promises ?s1) \<and> promises ?s1 ! fst l' = Pending"
      by (simp add: p1)
  qed
  note ih = Cons.IH [OF d pend]
  have len: "length (promises ?f) = length (promises s)" using ih by (simp add: p1)
  have own: "promises ?f ! fst l = out l"
  proof -
    have "promises ?f ! fst l = promises ?s1 ! fst l" using ih fresh by blast
    then show ?thesis using l by (simp add: p1)
  qed
  have rest: "\<forall>l'\<in>set ls. promises ?f ! fst l' = out l'" using ih by blast
  have others: "\<forall>i. i \<notin> fst ` set (l # ls) \<longrightarrow> promises ?f ! i = promises s ! i"
  proof (intro allI impI)
    fix i assume i: "i \<notin> fst ` set (l # ls)"
    then have "i \<notin> fst ` set ls" and "i \<noteq> fst l" by auto
    then have "promises ?f ! i = promises ?s1 ! i" using ih by blast
    with \<open>i \<noteq> fst l\<close> show "promises ?f ! i = promises s ! i" by (simp add: p1)
  qed
  have lis: "listeners ?f = filter (\<lambda>l'. fst l' \<notin> fst ` set (l # ls)) (listeners s)"
  proof -
    have "listeners ?f = filter (\<lambda>l'. fst l' \<notin> fst ` set ls) (listeners ?s1)" using ih by blast
    also have "\<dots> = filter (\<lambda>l'. fst l' \<notin> fst ` set (l # ls)) (listeners s)"
      by (auto simp: l1 intro: filter_cong)
    finally show ?thesis .
  qed
  from len own rest others lis show ?case by simp
qed

lemma handleMessage_ERROR:
  "handleMessage rm l (ERROR m) s
     = s\<lparr>listeners := filter (\<lambda>l'. fst l' \<noteq> fst l) (listeners s),
          promises := settle (fst l) (try_local rm (snd l)) (promises s)\<rparr>"
  by (simp add: handleMessage_def)

lemma handleMessage_MATCH_COMPLETE:
  "handleMessage rm l (MATCH_COMPLETE r) s
     = s\<lparr>listeners := filter (\<lambda>l'. fst l' \<noteq> fst l) (listeners s),
          promises := settle (fst l) (Resolved r) (promises s)\<rparr>"
  by (simp add: handleMessage_def)

lemma page_inv_distinct: "page_inv s \<Longrightarrow> distinct (map fst (listeners s))"
  by (simp add: page_inv_def)

lemma page_inv_pending:
  "page_inv s \<Longrightarrow>
   \<forall>l\<in>set (listeners s). fst l < length (promises (onmessage e s))
           \<and> promises (onmessage e s) ! fst l = Pending"
  by (cases e) (simp_all add: page_inv_def list_all_iff onmessage_def)

lemma message_event_ERROR:
  assumes "page_inv s"
  shows "length (promises (message_event rm (ERROR m) s)) = length (promises s)"
    and "\<forall>l\<in>set (listeners s). promises (message_event rm (ERROR m) s) ! fst l = try_local rm (snd l)"
    and "\<forall>i. i \<notin> fst ` set (listeners s) \<longrightarrow>
             promises (message_event rm (ERROR m) s) ! i = promises s ! i"
    and "listeners (message_event rm (ERROR m) s) = []"
proof -
  have ls: "listeners (onmessage (ERROR m) s) = listeners s"
    and ps: "promises (onmessage (ERROR m) s) = promises s"
    by (simp_all add: onmessage_def)
  note f = fold_handleMessage_settles [where e = "ERROR m" and rm = rm
      and out = "\<lambda>l. try_local rm (snd l)" and ls = "listeners s" and s = "onmessage (ERROR m) s",
      OF handleMessage_ERROR page_inv_distinct [OF assms] page_inv_pending [OF assms, of "ERROR m"]]
  show "length (promises (message_event rm (ERROR m) s)) = length (promises s)"
    using f by (simp add: message_event_def ps)
  show "\<forall>l\<in>set (listeners s). promises (message_event rm (ERROR m) s) ! fst l = try_local rm (snd l)"
    using f by (simp add: message_event_def)
  show "\<forall>i. i \<notin> fst ` set (listeners s) \<longrightarrow>
             promises (message_event rm (ERROR m) s) ! i = promises s ! i"
    using f by (simp add: message_event_def ps)
  have "listeners (message_event rm (ERROR m) s)
      = filter (\<lambda>l'. fst l' \<notin> fst ` set (listeners s)) (listeners s)"
    using f by (simp add: message_event_def ls)
  then show "listeners (message_event rm (ERROR m) s) = []" by simp
qed

lemma message_event_MATCH_COMPLETE:
  assumes "page_inv s"
  shows "length (promises (message_event rm (MATCH_COMPLETE r) s)) = length (promises s)"
    and "\<forall>l\<in>set (listeners s). promises (message_event rm (MATCH_COMPLETE r) s) ! fst l = Resolved r"
    and "\<forall>i. i \<notin> fst ` set (listeners s) \<longrightarrow>
             promises (message_event rm (MATCH_COMPLETE r) s) ! i = promises s ! i"
    and "listeners (message_event rm (MATCH_COMPLETE r) s) = []"
proof -
  have ls: "listeners (onmessage (MATCH_COMPLETE r) s) = listeners s"
    and ps: "promises (onmessage (MATCH_COMPLETE r) s) = promises s"
    by (simp_all add: onmessage_def)
  note f = fold_handleMessage_settles [where e = "MATCH_COMPLETE r" and rm = rm
      and out = "\<lambda>l. Resolved r" and ls = "listeners s" and s = "onmessage (MATCH_COMPLETE r) s",
      OF handleMessage_MATCH_COMPLETE page_inv_distinct [OF assms]
        page_inv_pending [OF assms, of "MATCH_COMPLETE r"]]
  show "length (promises (message_event rm (MATCH_COMPLETE r) s)) = length (promises s)"
    using f by (simp add: message_event_def ps)
  show "\<forall>l\<in>set (listeners s). promises (message_event rm (MATCH_COMPLETE r) s) ! fst l = Resolved r"
    using f by (simp add: message_event_def)
  show "\<forall>i. i \<notin> fst ` set (listeners s) \<longrightarrow>
             promises (message_event rm (MATCH_COMPLETE r) s) ! i = promises s ! i"
    using f by (simp add: message_event_def ps)
  have "listeners (message_event rm (MATCH_COMPLETE r) s)
      = filter (\<lambda>l'. fst l' \<notin> fst ` set (listeners s)) (listeners s)"
    using f by (simp add: message_event_def ls)
  then show "listeners (message_event rm (MATCH_COMPLETE r) s) = []" by simp
qed


lemma run_Nil: "run rm qb [] w = w"
  by (simp add: run_def)

lemma run_Cons: "run rm qb (ev # evs) w = run rm qb evs (step rm qb ev w)"
  by (simp add: run_def)

lemma run_append: "run rm qb (evs @ evs') w = run rm qb evs' (run rm qb evs w)"
  by (simp add: run_def)

lemma run_invariant:
  assumes "\<And>ev w. P w \<Longrightarrow> P (step rm qb ev w)" and "P w"
  shows "P (run rm qb evs w)"
  using assms(2)
proof (induction evs arbitrary: w)
  case Nil
  then show ?case by (simp add: run_Nil)
next
  case (Cons ev evs)
  then show ?case by (simp add: run_Cons assms(1))
qed

lemma try_local_not_Pending: "try_local rm colors \<noteq> Pending"
  by (simp add: try_local_def split: sum.splits)

subsection \<open>The invariant of the page\<close>

lemma page_inv_initWorker: "page_inv s \<Longrightarrow> page_inv (initWorker s)"
  by (simp add: page_inv_def initWorker_def)

lemma page_inv_onerror: "page_inv s \<Longrightarrow> page_inv (onerror s)"
  by (simp add: page_inv_def onerror_def)

lemma page_inv_matchEmojisInWorker:
  assumes "page_inv s"
  shows "page_inv (snd (matchEmojisInWorker rm colors s))"
proof (cases "\<not> workerReady s \<or> \<not> mosaicWorker s")
  case True
  then have "snd (matchEmojisInWorker rm colors s)
      = s\<lparr>promises := promises s @ [try_local rm colors]\<rparr>"
    by (simp add: matchEmojisInWorker_def Let_def)
  then show ?thesis
    using assms by (auto simp: page_inv_def list_all_iff nth_append)
next
  case False
  then have "snd (matchEmojisInWorker rm colors s)
      = s\<lparr>promises := promises s @ [Pending],
           listeners := listeners s @ [(length (promises s), colors)],
           posted := posted s @ [MATCH_EMOJIS colors]\<rparr>"
    by (simp add: matchEmojisInWorker_def Let_def)
  then show ?thesis
    using assms by (auto simp: page_inv_def list_all_iff nth_append)
qed

lemma page_inv_message_event:
  assumes "page_inv s"
  shows "page_inv (message_event rm e s)"
proof (cases e)
  case WASM_READY
  then show ?thesis using assms by (simp add: message_event_idle page_inv_def)
next
  case (MATCH_COMPLETE r)
  then show ?thesis
    using message_event_MATCH_COMPLETE(4) [OF assms, of rm r] by (simp add: page_inv_def)
next
  case (ERROR m)
  then show ?thesis
    using message_event_ERROR(4) [OF assms, of rm m] by (simp add: page_inv_def)
next
  case (OTHER t)
  then show ?thesis using assms by (simp add: message_event_idle)
qed

lemma page_inv_step:
  assumes "page_inv (pg w)"
  shows "page_inv (pg (step rm qb ev w))"
proof (cases ev)
  case PageLoad
  then show ?thesis using assms by (simp add: step_def page_inv_initWorker)
next
  case (Match colors)
  then show ?thesis using assms by (simp add: step_def page_inv_matchEmojisInWorker)
next
  case (WorkerHandles ok)
  then show ?thesis using assms by (simp add: step_def)
next
  case Deliver
  then show ?thesis
    using assms by (cases "inbox w") (simp_all add: step_def page_inv_message_event)
next
  case WorkerFault
  then show ?thesis using assms by (simp add: step_def page_inv_onerror)
qed

lemma page_inv_run: "page_inv (pg (run rm qb evs initial_world))"
proof (rule run_invariant [where P = "\<lambda>w. page_inv (pg w)"])
  show "page_inv (pg (initial_world :: 'a world))"
    by (simp add: initial_world_def initial_page_def page_inv_def)
qed (rule page_inv_step)


lemma matchEmojisInWorker_ready:
  assumes "workerReady s \<and> mosaicWorker s"
  shows "matchEmojisInWorker rm colors s
         = (length (promises s),
            s\<lparr>promises := promises s @ [Pending],
              listeners := listeners s @ [(length (promises s), colors)],
              posted := posted s @ [MATCH_EMOJIS colors]\<rparr>)"
  using assms by (simp add: matchEmojisInWorker_def Let_def)

lemma matchEmojisInWorker_not_ready:
  assumes "\<not> (workerReady s \<and> mosaicWorker s)"
  shows "matchEmojisInWorker rm colors s
         = (length (promises s), s\<lparr>promises := promises s @ [try_local rm colors]\<rparr>)"
  using assms by (auto simp: matchEmojisInWorker_def Let_def)

lemma ready_page_run:
  "pg (run rm qb [PageLoad, WorkerHandles True, Deliver] initial_world)
   = \<lparr>mosaicWorker = True, workerReady = True, listeners = [], promises = [],
      posted = [INIT_WASM ''build/full_mosaic.wasm'' ''kd_tree.json'']\<rparr>"
  by (simp add: run_def step_def initial_world_def initial_page_def initWorker_def
      worker_reply_def message_event_def onmessage_def)

text \<open>
  Claim C4.  When \<open>matchEmojisInWorker\<close> is called while the channel is not ready (no
  worker yet, a worker that has not reported ready, or one whose readiness an error took
  away), the local matcher runs inside the call: the returned promise is settled when the
  call returns, resolved with the result of the local matcher on the batch (rejected with
  its error if the matcher throws), no message is posted to the worker and no listener is
  registered, so nothing waits for the initialisation.
\<close>

theorem not_ready_runs_local_fallback_at_once:
  assumes "\<not> (workerReady s \<and> mosaicWorker s)"
  shows "matchEmojisInWorker rm colors s
           = (length (promises s), s\<lparr>promises := promises s @ [try_local rm colors]\<rparr>)
       \<and> (rm colors = Inr results \<longrightarrow>
            promises (snd (matchEmojisInWorker rm colors s)) ! fst (matchEmojisInWorker rm colors s)
              = Resolved results)
       \<and> (rm colors = Inl err \<longrightarrow>
            promises (snd (matchEmojisInWorker rm colors s)) ! fst (matchEmojisInWorker rm colors s)
              = Rejected err)
       \<and> posted (snd (matchEmojisInWorker rm colors s)) = posted s
       \<and> listeners (snd (matchEmojisInWorker rm colors s)) = listeners s"
  by (simp add: matchEmojisInWorker_not_ready [OF assms] try_local_def)

theorem not_ready_runs_local_fallback_at_once_witness:
  "\<not> (workerReady (initial_page :: nat list page) \<and> mosaicWorker (initial_page :: nat list page))
   \<and> matchEmojisInWorker (\<lambda>cs. Inr (map (\<lambda>c. ''emoji_u2b1b.svg'') cs)) [[255, 0, 0 :: nat]] initial_page
       = (0, initial_page\<lparr>promises := [Resolved [''emoji_u2b1b.svg'']]\<rparr>)
   \<and> matchEmojisInWorker (\<lambda>cs. Inr (map (\<lambda>c. ''emoji_u2b1b.svg'') cs)) [[255, 0, 0 :: nat]]
        (initWorker initial_page)
       = (0, (initWorker initial_page)\<lparr>promises := [Resolved [''emoji_u2b1b.svg'']]\<rparr>)
   \<and> matchEmojisInWorker (\<lambda>cs. Inl (Thrown ''tree not loaded'')) [[255, 0, 0 :: nat]]
        (onerror (initWorker initial_page))
       = (0, (onerror (initWorker initial_page))\<lparr>promises := [Rejected (Thrown ''tree not loaded'')]\<rparr>)"
proof -
  have h1: "\<not> (workerReady (initial_page :: nat list page) \<and> mosaicWorker (initial_page :: nat list page))"
    by (simp add: initial_page_def)
  have h2: "\<not> (workerReady (initWorker (initial_page :: nat list page))
              \<and> mosaicWorker (initWorker (initial_page :: nat list page)))"
    by (simp add: initial_page_def initWorker_def)
  have h3: "\<not> (workerReady (onerror (initWorker (initial_page :: nat list page)))
              \<and> mosaicWorker (onerror (initWorker (initial_page :: nat list page))))"
    by (simp add: onerror_def)
  have e: "promises (initial_page :: nat list page) = []"
    "promises (initWorker (initial_page :: nat list page)) = []"
    "promises (onerror (initWorker (initial_page :: nat list page))) = []"
    by (simp_all add: initial_page_def initWorker_def onerror_def)
  show ?thesis
    using not_ready_runs_local_fallback_at_once [OF h1, of "\<lambda>cs. Inr (map (\<lambda>c. ''emoji_u2b1b.svg'') cs)" "[[255, 0, 0]]"]
      not_ready_runs_local_fallback_at_once [OF h2, of "\<lambda>cs. Inr (map (\<lambda>c. ''emoji_u2b1b.svg'') cs)" "[[255, 0, 0]]"]
      not_ready_runs_local_fallback_at_once [OF h3, of "\<lambda>cs. Inl (Thrown ''tree not loaded'')" "[[255, 0, 0]]"]
      h1
    by (simp add: e try_local_def)
qed

text \<open>
  Claim C3, as stated, fails: there is no test for the empty batch, and with a ready channel
  the call posts a \<open>MATCH_EMOJIS\<close> message with the empty batch and leaves the promise
  pending.
\<close>

theorem empty_batch_is_posted_when_ready:
  "posted (pg (run (\<lambda>cs. Inr (map (\<lambda>c. ''emoji_u2b1b.svg'') cs)) (map (\<lambda>c. ''emoji_u2b1b.svg''))
             [PageLoad, WorkerHandles True, Deliver, Match ([] :: nat list list)] initial_world))
     = [INIT_WASM ''build/full_mosaic.wasm'' ''kd_tree.json'', MATCH_EMOJIS []]
   \<and> promises (pg (run (\<lambda>cs. Inr (map (\<lambda>c. ''emoji_u2b1b.svg'') cs)) (map (\<lambda>c. ''emoji_u2b1b.svg''))
             [PageLoad, WorkerHandles True, Deliver, Match ([] :: nat list list)] initial_world))
     = [Pending]"
proof -
  have "run (\<lambda>cs. Inr (map (\<lambda>c. ''emoji_u2b1b.svg'') cs)) (map (\<lambda>c. ''emoji_u2b1b.svg''))
             ([PageLoad, WorkerHandles True, Deliver] @ [Match ([] :: nat list list)]) initial_world
        = step (\<lambda>cs. Inr (map (\<lambda>c. ''emoji_u2b1b.svg'') cs)) (map (\<lambda>c. ''emoji_u2b1b.svg''))
            (Match []) (run (\<lambda>cs. Inr (map (\<lambda>c. ''emoji_u2b1b.svg'') cs)) (map (\<lambda>c. ''emoji_u2b1b.svg''))
             [PageLoad, WorkerHandles True, Deliver] initial_world)"
    by (simp only: run_append run_Cons run_Nil)
  then show ?thesis
    by (simp add: step_def ready_page_run matchEmojisInWorker_ready)
qed


subsection \<open>The ready messages that can still arrive\<close>

lemma step_PageLoad:
  "step rm qb PageLoad w = w\<lparr>pg := initWorker (pg w)\<rparr>"
  by (simp add: step_def)

lemma step_Match:
  "step rm qb (Match colors) w = w\<lparr>pg := snd (matchEmojisInWorker rm colors (pg w))\<rparr>"
  by (simp add: step_def)

lemma step_WorkerFault:
  "step rm qb WorkerFault w = (if mosaicWorker (pg w) then w\<lparr>pg := onerror (pg w)\<rparr> else w)"
  by (simp add: step_def)

lemma step_Deliver_Nil: "inbox w = [] \<Longrightarrow> step rm qb Deliver w = w"
  by (simp add: step_def)

lemma step_Deliver_Cons:
  "inbox w = e # rest \<Longrightarrow>
   step rm qb Deliver w = w\<lparr>pg := message_event rm e (pg w), inbox := rest\<rparr>"
  by (simp add: step_def)

lemma step_WorkerHandles:
  "step rm qb (WorkerHandles ok) w =
     (if handled w < length (posted (pg w))
      then w\<lparr>handled := handled w + 1,
              inbox := inbox w @ [worker_reply qb ok (posted (pg w) ! handled w)]\<rparr>
      else w)"
  by (simp add: step_def)

lemma posted_matchEmojisInWorker:
  "filter is_init (drop n (posted (snd (matchEmojisInWorker rm colors s))))
   = filter is_init (drop n (posted s))"
proof -
  have "filter is_init (drop k [MATCH_EMOJIS colors]) = []" for k
    by (cases k) (simp_all add: is_init_def)
  then show ?thesis by (simp add: matchEmojisInWorker_def Let_def)
qed

lemma match_fields:
  "mosaicWorker (snd (matchEmojisInWorker rm colors s)) = mosaicWorker s"
  "workerReady (snd (matchEmojisInWorker rm colors s)) = workerReady s"
  "length (posted s) \<le> length (posted (snd (matchEmojisInWorker rm colors s)))"
  by (simp_all add: matchEmojisInWorker_def Let_def)

lemma ready_pending_WorkerHandles:
  assumes "handled w < length (posted (pg w))"
  shows "ready_pending (w\<lparr>handled := handled w + 1,
              inbox := inbox w @ [worker_reply qb ok (posted (pg w) ! handled w)]\<rparr>)
         \<le> ready_pending w"
proof -
  have d: "drop (handled w) (posted (pg w))
      = posted (pg w) ! handled w # drop (Suc (handled w)) (posted (pg w))"
    using assms by (simp add: Cons_nth_drop_Suc)
  show ?thesis
    unfolding ready_pending_def d
    by (cases "posted (pg w) ! handled w") (simp_all add: worker_reply_def is_init_def)
qed

lemma channel_inv_step:
  assumes "channel_inv w"
  shows "channel_inv (step rm qb ev w)"
proof (cases ev)
  case PageLoad
  show ?thesis
  proof (cases "mosaicWorker (pg w)")
    case True
    then show ?thesis using assms PageLoad by (simp add: step_PageLoad initWorker_def)
  next
    case False
    with assms have z: "ready_pending w = 0" "\<not> workerReady (pg w)"
      "handled w \<le> length (posted (pg w))"
      by (simp_all add: channel_inv_def)
    then show ?thesis
      using False PageLoad
      by (simp add: step_PageLoad initWorker_def channel_inv_def ready_pending_def is_init_def)
  qed
next
  case (Match colors)
  have "ready_pending (w\<lparr>pg := snd (matchEmojisInWorker rm colors (pg w))\<rparr>) = ready_pending w"
    by (simp add: ready_pending_def posted_matchEmojisInWorker)
  then show ?thesis
    using assms Match match_fields(3) [of "pg w" rm colors]
    by (simp add: step_Match channel_inv_def match_fields(1,2))
next
  case (WorkerHandles ok)
  show ?thesis
  proof (cases "handled w < length (posted (pg w))")
    case True
    from ready_pending_WorkerHandles [OF True, of qb ok]
    show ?thesis
      using assms WorkerHandles True by (auto simp: step_WorkerHandles channel_inv_def)
  next
    case False
    then show ?thesis using assms WorkerHandles by (simp add: step_WorkerHandles)
  qed
next
  case Deliver
  show ?thesis
  proof (cases "inbox w")
    case Nil
    then show ?thesis using assms Deliver by (simp add: step_Deliver_Nil)
  next
    case (Cons e rest)
    have rp: "ready_pending w
        = ready_pending (w\<lparr>pg := message_event rm e (pg w), inbox := rest\<rparr>)
          + (if e = WASM_READY then 1 else 0)"
      using Cons by (simp add: ready_pending_def message_event_fields)
    show ?thesis
      using assms Deliver rp
      by (auto simp: step_Deliver_Cons [OF Cons] channel_inv_def message_event_fields
          split: if_splits)
  qed
next
  case WorkerFault
  have "ready_pending (w\<lparr>pg := onerror (pg w)\<rparr>) = ready_pending w"
    by (simp add: ready_pending_def onerror_def)
  then show ?thesis
    using assms WorkerFault by (simp add: step_WorkerFault channel_inv_def onerror_def)
qed

lemma channel_inv_run: "channel_inv (run rm qb evs initial_world)"
proof (rule run_invariant [where P = channel_inv])
  show "channel_inv (initial_world :: 'a world)"
    by (simp add: channel_inv_def initial_world_def initial_page_def ready_pending_def)
qed (rule channel_inv_step)

lemma channel_spent_step:
  assumes "channel_spent w"
  shows "channel_spent (step rm qb ev w)"
proof (cases ev)
  case PageLoad
  then show ?thesis using assms by (simp add: step_PageLoad initWorker_def channel_spent_def)
next
  case (Match colors)
  have "ready_pending (w\<lparr>pg := snd (matchEmojisInWorker rm colors (pg w))\<rparr>) = ready_pending w"
    by (simp add: ready_pending_def posted_matchEmojisInWorker)
  then show ?thesis
    using assms Match match_fields(3) [of "pg w" rm colors]
    by (simp add: step_Match channel_spent_def match_fields(1,2))
next
  case (WorkerHandles ok)
  show ?thesis
  proof (cases "handled w < length (posted (pg w))")
    case True
    from ready_pending_WorkerHandles [OF True, of qb ok]
    show ?thesis
      using assms WorkerHandles True by (auto simp: step_WorkerHandles channel_spent_def)
  next
    case False
    then show ?thesis using assms WorkerHandles by (simp add: step_WorkerHandles)
  qed
next
  case Deliver
  show ?thesis
  proof (cases "inbox w")
    case Nil
    then show ?thesis using assms Deliver by (simp add: step_Deliver_Nil)
  next
    case (Cons e rest)
    have rp: "ready_pending w
        = ready_pending (w\<lparr>pg := message_event rm e (pg w), inbox := rest\<rparr>)
          + (if e = WASM_READY then 1 else 0)"
      using Cons by (simp add: ready_pending_def message_event_fields)
    show ?thesis
      using assms Deliver rp
      by (auto simp: step_Deliver_Cons [OF Cons] channel_spent_def message_event_fields
          split: if_splits)
  qed
next
  case WorkerFault
  have "ready_pending (w\<lparr>pg := onerror (pg w)\<rparr>) = ready_pending w"
    by (simp add: ready_pending_def onerror_def)
  then show ?thesis
    using assms WorkerFault by (simp add: step_WorkerFault channel_spent_def onerror_def)
qed

lemma channel_spent_run: "channel_spent w \<Longrightarrow> channel_spent (run rm qb evs w)"
  by (rule run_invariant [where P = channel_spent]) (rule channel_spent_step)

text \<open>
  Claim C5.  The page posts one initialisation request per worker and the worker answers
  each request once, so once the page has been ready no further \<open>WASM_READY\<close> can
  arrive: after an \<open>error\<close> event has taken the readiness away, nothing that happens
  later brings it back.
\<close>

theorem ready_not_restored_after_error:
  assumes "workerReady (pg (run rm qb evs initial_world))"
  shows "\<not> workerReady (pg (run rm qb (evs @ WorkerFault # later) initial_world))"
proof -
  let ?w = "run rm qb evs initial_world"
  have inv: "channel_inv ?w" by (rule channel_inv_run)
  with assms have "mosaicWorker (pg ?w)" "ready_pending ?w = 0" "handled ?w \<le> length (posted (pg ?w))"
    by (auto simp: channel_inv_def)
  then have "channel_spent (step rm qb WorkerFault ?w)"
    by (simp add: step_WorkerFault channel_spent_def onerror_def ready_pending_def)
  then have "channel_spent (run rm qb later (step rm qb WorkerFault ?w))"
    by (rule channel_spent_run)
  then have "\<not> workerReady (pg (run rm qb later (step rm qb WorkerFault ?w)))"
    by (simp add: channel_spent_def)
  then show ?thesis by (simp add: run_append run_Cons)
qed


theorem ready_not_restored_after_error_witness:
  "workerReady (pg (run (\<lambda>cs. Inr (map (\<lambda>c. ''emoji_u2b1b.svg'') cs)) (map (\<lambda>c. ''emoji_u2b1b.svg''))
        [PageLoad, WorkerHandles True, Deliver] (initial_world :: nat list world)))
   \<and> \<not> workerReady (pg (run (\<lambda>cs. Inr (map (\<lambda>c. ''emoji_u2b1b.svg'') cs)) (map (\<lambda>c. ''emoji_u2b1b.svg''))
        ([PageLoad, WorkerHandles True, Deliver]
          @ WorkerFault # [PageLoad, Match [[255, 0, 0]], WorkerHandles True, Deliver])
        (initial_world :: nat list world)))"
proof -
  have h: "workerReady (pg (run (\<lambda>cs. Inr (map (\<lambda>c. ''emoji_u2b1b.svg'') cs)) (map (\<lambda>c. ''emoji_u2b1b.svg''))
        [PageLoad, WorkerHandles True, Deliver] (initial_world :: nat list world)))"
    by (simp add: ready_page_run)
  from h ready_not_restored_after_error [OF h] show ?thesis by simp
qed

text \<open>
  Claim C2 fails on the code when two requests are in flight.  Both listeners hear the first
  \<open>MATCH_COMPLETE\<close>, which answers the first batch, and both promises resolve with its
  results: the promise of the second batch gets the match of the first batch, not what the
  local matcher returns for the second batch.  The listeners are removed, so the reply to
  the second request changes nothing.
\<close>

theorem concurrent_requests_share_first_reply:
  "promises (pg (run
      (\<lambda>cs. Inr (map (\<lambda>c. if 128 \<le> hd c then ''emoji_u1f534.svg'' else ''emoji_u1f535.svg'') cs))
      (map (\<lambda>c. if 128 \<le> hd c then ''emoji_u1f534.svg'' else ''emoji_u1f535.svg''))
      [PageLoad, WorkerHandles True, Deliver,
       Match [[255, 0, 0 :: nat]], Match [[0, 0, 255]],
       WorkerHandles True, Deliver, WorkerHandles True, Deliver]
      initial_world))
     = [Resolved [''emoji_u1f534.svg''], Resolved [''emoji_u1f534.svg'']]
   \<and> (\<lambda>cs. Inr (map (\<lambda>c. if 128 \<le> hd c then ''emoji_u1f534.svg'' else ''emoji_u1f535.svg'') cs)
           :: js_error + string list) [[0, 0, 255 :: nat]]
     = Inr [''emoji_u1f535.svg'']"
  by (simp add: run_def step_def initial_world_def initial_page_def initWorker_def
      worker_reply_def message_event_def onmessage_def matchEmojisInWorker_def Let_def
      handleMessage_def settle_def)

subsection \<open>A request and its reply\<close>

lemma message_event_settled:
  assumes inv: "page_inv s" and pid: "pid < length (promises s)"
    and settled: "promises s ! pid \<noteq> Pending"
  shows "promises (message_event rm e s) ! pid = promises s ! pid"
proof -
  have out: "pid \<notin> fst ` set (listeners s)"
  proof
    assume "pid \<in> fst ` set (listeners s)"
    then obtain l where "l \<in> set (listeners s)" and "pid = fst l" by auto
    with inv have "promises s ! pid = Pending" by (simp add: page_inv_def list_all_iff)
    with settled show False by simp
  qed
  show ?thesis
  proof (cases e)
    case WASM_READY
    then show ?thesis by (simp add: message_event_idle)
  next
    case (MATCH_COMPLETE r)
    with message_event_MATCH_COMPLETE(3) [OF inv, of rm r] out show ?thesis by simp
  next
    case (ERROR m)
    with message_event_ERROR(3) [OF inv, of rm m] out show ?thesis by simp
  next
    case (OTHER t)
    then show ?thesis by (simp add: message_event_idle)
  qed
qed

lemma message_event_length: 
  "page_inv s \<Longrightarrow> length (promises (message_event rm e s)) = length (promises s)"
  by (cases e)
    (simp_all add: message_event_idle message_event_MATCH_COMPLETE(1) message_event_ERROR(1))

lemma match_keeps:
  assumes "pid < length (promises s)"
  shows "promises (snd (matchEmojisInWorker rm colors s)) ! pid = promises s ! pid"
    and "pid < length (promises (snd (matchEmojisInWorker rm colors s)))"
    and "l \<in> set (listeners s) \<Longrightarrow> l \<in> set (listeners (snd (matchEmojisInWorker rm colors s)))"
    and "k < length (posted s) \<Longrightarrow> k < length (posted (snd (matchEmojisInWorker rm colors s)))
           \<and> posted (snd (matchEmojisInWorker rm colors s)) ! k = posted s ! k"
  using assms by (auto simp: matchEmojisInWorker_def Let_def nth_append)

text \<open>A step of any kind keeps the promise number and the page invariant.\<close>

lemma step_length:
  assumes "page_inv (pg w)" and "pid < length (promises (pg w))"
  shows "pid < length (promises (pg (step rm qb ev w)))"
proof (cases ev)
  case PageLoad
  then show ?thesis using assms by (simp add: step_PageLoad initWorker_def)
next
  case (Match colors)
  then show ?thesis using assms by (simp add: step_Match match_keeps(2))
next
  case (WorkerHandles ok)
  then show ?thesis using assms by (simp add: step_WorkerHandles)
next
  case Deliver
  then show ?thesis
    using assms
    by (cases "inbox w") (simp_all add: step_Deliver_Nil step_Deliver_Cons message_event_length)
next
  case WorkerFault
  then show ?thesis using assms by (simp add: step_WorkerFault onerror_def)
qed

lemma step_settled:
  assumes "page_inv (pg w)" and "pid < length (promises (pg w))"
    and "promises (pg w) ! pid \<noteq> Pending"
  shows "promises (pg (step rm qb ev w)) ! pid = promises (pg w) ! pid"
proof (cases ev)
  case PageLoad
  then show ?thesis by (simp add: step_PageLoad initWorker_def)
next
  case (Match colors)
  then show ?thesis using assms by (simp add: step_Match match_keeps(1))
next
  case (WorkerHandles ok)
  then show ?thesis by (simp add: step_WorkerHandles)
next
  case Deliver
  then show ?thesis
    using assms
    by (cases "inbox w") (simp_all add: step_Deliver_Nil step_Deliver_Cons message_event_settled)
next
  case WorkerFault
  then show ?thesis by (simp add: step_WorkerFault onerror_def)
qed

lemma step_handled: "handled w \<le> handled (step rm qb ev w)"
  by (cases ev; cases "inbox w") (simp_all add: step_def)

lemma awaiting_reply_step:
  assumes inv: "page_inv (pg w)" and pid: "pid < length (promises (pg w))"
    and a: "awaiting_reply rm qb pid k w"
  shows "awaiting_reply rm qb pid k (step rm qb ev w)"
proof -
  let ?w' = "step rm qb ev w"
  consider
    (waiting) "promises (pg w) ! pid = Pending" "(pid, []) \<in> set (listeners (pg w))"
      "handled w = k" "inbox w = []" "k < length (posted (pg w))"
      "posted (pg w) ! k = MATCH_EMOJIS []"
  | (transit) "promises (pg w) ! pid = Pending" "(pid, []) \<in> set (listeners (pg w))"
      "k < handled w" "inbox w \<noteq> []"
      "hd (inbox w) = MATCH_COMPLETE (qb []) \<or> hd (inbox w) = ERROR ''match failed''"
  | (settled) "k < handled w"
      "promises (pg w) ! pid = Resolved (qb []) \<or> promises (pg w) ! pid = try_local rm []"
    using a unfolding awaiting_reply_def by blast
  then show ?thesis
  proof cases
    case waiting
    show ?thesis
    proof (cases ev)
      case PageLoad
      with waiting show ?thesis
        by (simp add: awaiting_reply_def step_PageLoad initWorker_def nth_append)
    next
      case (Match colors)
      with waiting show ?thesis
        by (simp add: awaiting_reply_def step_Match match_keeps(1,3,4) [OF pid])
    next
      case (WorkerHandles ok)
      with waiting show ?thesis
        by (simp add: awaiting_reply_def step_WorkerHandles worker_reply_def)
    next
      case Deliver
      with waiting show ?thesis by (simp add: awaiting_reply_def step_Deliver_Nil)
    next
      case WorkerFault
      with waiting show ?thesis by (simp add: awaiting_reply_def step_WorkerFault onerror_def)
    qed
  next
    case transit
    then obtain e rest where inbox: "inbox w = e # rest"
      and e: "e = MATCH_COMPLETE (qb []) \<or> e = ERROR ''match failed''"
      by (cases "inbox w") auto
    show ?thesis
    proof (cases ev)
      case PageLoad
      with transit show ?thesis
        by (simp add: awaiting_reply_def step_PageLoad initWorker_def)
    next
      case (Match colors)
      with transit show ?thesis
        by (simp add: awaiting_reply_def step_Match match_keeps(1,3) [OF pid])
    next
      case (WorkerHandles ok)
      with transit show ?thesis
        by (auto simp: awaiting_reply_def step_WorkerHandles)
    next
      case Deliver
      have "promises (message_event rm e (pg w)) ! pid = Resolved (qb [])
            \<or> promises (message_event rm e (pg w)) ! pid = try_local rm []"
        using e message_event_MATCH_COMPLETE(2) [OF inv, of rm "qb []"]
          message_event_ERROR(2) [OF inv, of rm "''match failed''"] transit(2)
        by auto
      with Deliver transit(3) show ?thesis
        by (simp add: awaiting_reply_def step_Deliver_Cons [OF inbox])
    next
      case WorkerFault
      with transit show ?thesis by (simp add: awaiting_reply_def step_WorkerFault onerror_def)
    qed
  next
    case settled
    have "promises (pg w) ! pid \<noteq> Pending"
      using settled(2) try_local_not_Pending [of rm "[]"] by auto
    then have same: "promises (pg ?w') ! pid = promises (pg w) ! pid"
      using inv pid by (intro step_settled)
    have "k < handled ?w'" using settled(1) step_handled [of w rm qb ev] by simp
    with same settled(2) show ?thesis by (simp add: awaiting_reply_def)
  qed
qed

lemma awaiting_reply_run:
  assumes "page_inv (pg w)" and "pid < length (promises (pg w))"
    and "awaiting_reply rm qb pid k w"
  shows "awaiting_reply rm qb pid k (run rm qb evs w)"
proof -
  have "page_inv (pg (run rm qb evs w)) \<and> pid < length (promises (pg (run rm qb evs w)))
        \<and> awaiting_reply rm qb pid k (run rm qb evs w)"
  proof (rule run_invariant [where P = "\<lambda>w. page_inv (pg w) \<and> pid < length (promises (pg w))
        \<and> awaiting_reply rm qb pid k w"])
    show "page_inv (pg w) \<and> pid < length (promises (pg w)) \<and> awaiting_reply rm qb pid k w"
      using assms by simp
  next
    fix ev w
    assume "page_inv (pg w) \<and> pid < length (promises (pg w)) \<and> awaiting_reply rm qb pid k w"
    then show "page_inv (pg (step rm qb ev w)) \<and> pid < length (promises (pg (step rm qb ev w)))
        \<and> awaiting_reply rm qb pid k (step rm qb ev w)"
      by (simp add: page_inv_step step_length awaiting_reply_step)
  qed
  then show ?thesis by simp
qed


text \<open>
  Claim C3, amended.  An empty batch is treated like any other batch.  While the channel is
  not ready, the call posts nothing, registers no listener and settles the promise at once
  with what the local matcher makes of the empty batch: resolved with the empty result if
  the matcher returns it, rejected if the matcher throws.  While the channel is ready, the
  call posts the request with the empty batch, registers its listener and returns a pending
  promise.  If at the call every message posted before has been answered and its reply
  delivered, then every later state is one of three.  Either the worker has not handled
  the request, nothing is on its way to the page, and the promise is pending with its
  listener registered.  Or the worker has handled the request, the next message for the
  page is its reply, the result for the empty batch or an error, and the promise is still
  pending with its listener registered.  Or the promise is resolved with the result of the
  worker for the empty batch or settled by the local fallback on the empty batch.
\<close>

theorem empty_batch_follows_channel_state:
  "(\<not> (workerReady s \<and> mosaicWorker s) \<longrightarrow>
      matchEmojisInWorker rm [] s
        = (length (promises s), s\<lparr>promises := promises s @ [try_local rm []]\<rparr>)
      \<and> (rm [] = Inr [] \<longrightarrow>
           promises (snd (matchEmojisInWorker rm [] s)) ! fst (matchEmojisInWorker rm [] s) = Resolved [])
      \<and> (rm [] = Inl err \<longrightarrow>
           promises (snd (matchEmojisInWorker rm [] s)) ! fst (matchEmojisInWorker rm [] s)
             = Rejected err))
   \<and> (workerReady s \<and> mosaicWorker s \<longrightarrow>
      matchEmojisInWorker rm [] s
        = (length (promises s),
           s\<lparr>promises := promises s @ [Pending],
             listeners := listeners s @ [(length (promises s), [])],
             posted := posted s @ [MATCH_EMOJIS []]\<rparr>))
   \<and> (w = run rm qb evs initial_world \<and> workerReady (pg w) \<and> mosaicWorker (pg w)
        \<and> handled w = length (posted (pg w)) \<and> inbox w = []
        \<and> w' = run rm qb later (step rm qb (Match []) w) \<longrightarrow>
      (promises (pg w') ! length (promises (pg w)) = Pending
         \<and> (length (promises (pg w)), []) \<in> set (listeners (pg w'))
         \<and> handled w' = length (posted (pg w)) \<and> inbox w' = []
         \<and> length (posted (pg w)) < length (posted (pg w'))
         \<and> posted (pg w') ! length (posted (pg w)) = MATCH_EMOJIS [])
      \<or> (promises (pg w') ! length (promises (pg w)) = Pending
         \<and> (length (promises (pg w)), []) \<in> set (listeners (pg w'))
         \<and> length (posted (pg w)) < handled w' \<and> inbox w' \<noteq> []
         \<and> (hd (inbox w') = MATCH_COMPLETE (qb []) \<or> hd (inbox w') = ERROR ''match failed''))
      \<or> (length (posted (pg w)) < handled w'
         \<and> (promises (pg w') ! length (promises (pg w)) = Resolved (qb [])
              \<or> promises (pg w') ! length (promises (pg w)) = try_local rm [])))"
proof (intro conjI impI)
  assume n: "\<not> (workerReady s \<and> mosaicWorker s)"
  show "matchEmojisInWorker rm [] s
        = (length (promises s), s\<lparr>promises := promises s @ [try_local rm []]\<rparr>)"
    by (rule matchEmojisInWorker_not_ready [OF n])
  {
    assume "rm [] = Inr []"
    then show "promises (snd (matchEmojisInWorker rm [] s)) ! fst (matchEmojisInWorker rm [] s)
        = Resolved []"
      by (simp add: matchEmojisInWorker_not_ready [OF n] try_local_def)
  }
  {
    assume "rm [] = Inl err"
    then show "promises (snd (matchEmojisInWorker rm [] s)) ! fst (matchEmojisInWorker rm [] s)
        = Rejected err"
      by (simp add: matchEmojisInWorker_not_ready [OF n] try_local_def)
  }
next
  assume r: "workerReady s \<and> mosaicWorker s"
  show "matchEmojisInWorker rm [] s
        = (length (promises s),
           s\<lparr>promises := promises s @ [Pending],
             listeners := listeners s @ [(length (promises s), [])],
             posted := posted s @ [MATCH_EMOJIS []]\<rparr>)"
    by (rule matchEmojisInWorker_ready [OF r])
next
  assume h: "w = run rm qb evs initial_world \<and> workerReady (pg w) \<and> mosaicWorker (pg w)
        \<and> handled w = length (posted (pg w)) \<and> inbox w = []
        \<and> w' = run rm qb later (step rm qb (Match []) w)"
  let ?pid = "length (promises (pg w))"
  let ?k = "length (posted (pg w))"
  let ?w1 = "step rm qb (Match []) w"
  from h have weq: "w = run rm qb evs initial_world"
    and r: "workerReady (pg w) \<and> mosaicWorker (pg w)"
    and hq: "handled w = length (posted (pg w))" "inbox w = []"
    and w'eq: "w' = run rm qb later (step rm qb (Match []) w)"
    by blast+
  have inv: "page_inv (pg w)" unfolding weq by (rule page_inv_run)
  have w1: "?w1 = w\<lparr>pg := (pg w)\<lparr>promises := promises (pg w) @ [Pending],
             listeners := listeners (pg w) @ [(?pid, [])],
             posted := posted (pg w) @ [MATCH_EMOJIS []]\<rparr>\<rparr>"
    by (simp add: step_Match matchEmojisInWorker_ready [OF r])
  have inv1: "page_inv (pg ?w1)" using inv by (rule page_inv_step)
  have pid1: "?pid < length (promises (pg ?w1))" by (simp add: w1)
  have start: "awaiting_reply rm qb ?pid ?k ?w1"
    unfolding awaiting_reply_def w1 using hq by (simp add: nth_append)
  have "awaiting_reply rm qb ?pid ?k (run rm qb later ?w1)"
    using inv1 pid1 start by (rule awaiting_reply_run)
  then have "awaiting_reply rm qb ?pid ?k w'" unfolding w'eq .
  then show "(promises (pg w') ! ?pid = Pending
         \<and> (?pid, []) \<in> set (listeners (pg w'))
         \<and> handled w' = ?k \<and> inbox w' = []
         \<and> ?k < length (posted (pg w'))
         \<and> posted (pg w') ! ?k = MATCH_EMOJIS [])
      \<or> (promises (pg w') ! ?pid = Pending
         \<and> (?pid, []) \<in> set (listeners (pg w'))
         \<and> ?k < handled w' \<and> inbox w' \<noteq> []
         \<and> (hd (inbox w') = MATCH_COMPLETE (qb []) \<or> hd (inbox w') = ERROR ''match failed''))
      \<or> (?k < handled w'
         \<and> (promises (pg w') ! ?pid = Resolved (qb [])
              \<or> promises (pg w') ! ?pid = try_local rm []))"
    unfolding awaiting_reply_def by blast
qed

theorem empty_batch_follows_channel_state_witness:
  "matchEmojisInWorker (\<lambda>cs. Inr (map (\<lambda>c. ''emoji_u2b1b.svg'') cs)) [] (initial_page :: nat list page)
     = (0, initial_page\<lparr>promises := [Resolved []]\<rparr>)
   \<and> matchEmojisInWorker (\<lambda>cs. Inl (Thrown ''tree not loaded'')) [] (initial_page :: nat list page)
     = (0, initial_page\<lparr>promises := [Rejected (Thrown ''tree not loaded'')]\<rparr>)
   \<and> matchEmojisInWorker (\<lambda>cs. Inr (map (\<lambda>c. ''emoji_u2b1b.svg'') cs)) []
        \<lparr>mosaicWorker = True, workerReady = True, listeners = [], promises = [],
         posted = [INIT_WASM ''build/full_mosaic.wasm'' ''kd_tree.json'' :: nat list request]\<rparr>
     = (0, \<lparr>mosaicWorker = True, workerReady = True, listeners = [(0, [])], promises = [Pending],
            posted = [INIT_WASM ''build/full_mosaic.wasm'' ''kd_tree.json'', MATCH_EMOJIS []]\<rparr>)
   \<and> promises (pg (run (\<lambda>cs. Inr (map (\<lambda>c. ''emoji_u2b1b.svg'') cs)) (map (\<lambda>c. ''emoji_u2b1b.svg''))
        [Match [[255, 0, 0 :: nat]], WorkerHandles True, Deliver]
        (step (\<lambda>cs. Inr (map (\<lambda>c. ''emoji_u2b1b.svg'') cs)) (map (\<lambda>c. ''emoji_u2b1b.svg'')) (Match [])
          (run (\<lambda>cs. Inr (map (\<lambda>c. ''emoji_u2b1b.svg'') cs)) (map (\<lambda>c. ''emoji_u2b1b.svg''))
            [PageLoad, WorkerHandles True, Deliver] initial_world)))) ! 0
     = Resolved []
   \<and> promises (pg (run (\<lambda>cs. Inl (Thrown ''tree not loaded'')) (map (\<lambda>c. ''emoji_u2b1b.svg''))
        [WorkerHandles False, WorkerFault, Deliver]
        (step (\<lambda>cs. Inl (Thrown ''tree not loaded'')) (map (\<lambda>c. ''emoji_u2b1b.svg'')) (Match [])
          (run (\<lambda>cs. Inl (Thrown ''tree not loaded'')) (map (\<lambda>c. ''emoji_u2b1b.svg''))
            [PageLoad, WorkerHandles True, Deliver] (initial_world :: nat list world))))) ! 0
     = Rejected (Thrown ''tree not loaded'')"
proof -
  have quiet: "handled (run rm qb [PageLoad, WorkerHandles True, Deliver] (initial_world :: nat list world))
        = length (posted (pg (run rm qb [PageLoad, WorkerHandles True, Deliver] (initial_world :: nat list world))))
      \<and> inbox (run rm qb [PageLoad, WorkerHandles True, Deliver] (initial_world :: nat list world)) = []"
    for rm qb
    by (simp add: run_def step_def initial_world_def initial_page_def initWorker_def
        worker_reply_def message_event_def onmessage_def)
  have ready: "workerReady (pg (run rm qb [PageLoad, WorkerHandles True, Deliver] (initial_world :: nat list world)))
      \<and> mosaicWorker (pg (run rm qb [PageLoad, WorkerHandles True, Deliver] (initial_world :: nat list world)))"
    for rm qb
    by (simp add: ready_page_run)
  have late: "promises (pg (run (\<lambda>cs. Inr (map (\<lambda>c. ''emoji_u2b1b.svg'') cs)) (map (\<lambda>c. ''emoji_u2b1b.svg''))
        [Match [[255, 0, 0 :: nat]], WorkerHandles True, Deliver]
        (step (\<lambda>cs. Inr (map (\<lambda>c. ''emoji_u2b1b.svg'') cs)) (map (\<lambda>c. ''emoji_u2b1b.svg'')) (Match [])
          (run (\<lambda>cs. Inr (map (\<lambda>c. ''emoji_u2b1b.svg'') cs)) (map (\<lambda>c. ''emoji_u2b1b.svg''))
            [PageLoad, WorkerHandles True, Deliver] initial_world)))) ! 0
     = Resolved []"
    using empty_batch_follows_channel_state [where rm = "\<lambda>cs. Inr (map (\<lambda>c. ''emoji_u2b1b.svg'') cs)"
        and qb = "map (\<lambda>c. ''emoji_u2b1b.svg'')" and evs = "[PageLoad, WorkerHandles True, Deliver]"
        and later = "[Match [[255, 0, 0 :: nat]], WorkerHandles True, Deliver]"
        and w = "run (\<lambda>cs. Inr (map (\<lambda>c. ''emoji_u2b1b.svg'') cs)) (map (\<lambda>c. ''emoji_u2b1b.svg''))
            [PageLoad, WorkerHandles True, Deliver] initial_world"
        and w' = "run (\<lambda>cs. Inr (map (\<lambda>c. ''emoji_u2b1b.svg'') cs)) (map (\<lambda>c. ''emoji_u2b1b.svg''))
        [Match [[255, 0, 0 :: nat]], WorkerHandles True, Deliver]
        (step (\<lambda>cs. Inr (map (\<lambda>c. ''emoji_u2b1b.svg'') cs)) (map (\<lambda>c. ''emoji_u2b1b.svg'')) (Match [])
          (run (\<lambda>cs. Inr (map (\<lambda>c. ''emoji_u2b1b.svg'') cs)) (map (\<lambda>c. ''emoji_u2b1b.svg''))
            [PageLoad, WorkerHandles True, Deliver] initial_world))"]
      quiet ready
    by (simp add: run_def step_def initial_world_def initial_page_def initWorker_def
        worker_reply_def message_event_def onmessage_def matchEmojisInWorker_def Let_def
        handleMessage_def settle_def try_local_def)
  have failed: "promises (pg (run (\<lambda>cs. Inl (Thrown ''tree not loaded'')) (map (\<lambda>c. ''emoji_u2b1b.svg''))
        [WorkerHandles False, WorkerFault, Deliver]
        (step (\<lambda>cs. Inl (Thrown ''tree not loaded'')) (map (\<lambda>c. ''emoji_u2b1b.svg'')) (Match [])
          (run (\<lambda>cs. Inl (Thrown ''tree not loaded'')) (map (\<lambda>c. ''emoji_u2b1b.svg''))
            [PageLoad, WorkerHandles True, Deliver] (initial_world :: nat list world))))) ! 0
     = Rejected (Thrown ''tree not loaded'')"
    by (simp add: run_def step_def initial_world_def initial_page_def initWorker_def
        worker_reply_def message_event_def onmessage_def matchEmojisInWorker_def Let_def
        handleMessage_def settle_def try_local_def onerror_def)
  have calls: "matchEmojisInWorker (\<lambda>cs. Inr (map (\<lambda>c. ''emoji_u2b1b.svg'') cs)) [] (initial_page :: nat list page)
     = (0, initial_page\<lparr>promises := [Resolved []]\<rparr>)
   \<and> matchEmojisInWorker (\<lambda>cs. Inl (Thrown ''tree not loaded'')) [] (initial_page :: nat list page)
     = (0, initial_page\<lparr>promises := [Rejected (Thrown ''tree not loaded'')]\<rparr>)
   \<and> matchEmojisInWorker (\<lambda>cs. Inr (map (\<lambda>c. ''emoji_u2b1b.svg'') cs)) []
        \<lparr>mosaicWorker = True, workerReady = True, listeners = [], promises = [],
         posted = [INIT_WASM ''build/full_mosaic.wasm'' ''kd_tree.json'' :: nat list request]\<rparr>
     = (0, \<lparr>mosaicWorker = True, workerReady = True, listeners = [(0, [])], promises = [Pending],
            posted = [INIT_WASM ''build/full_mosaic.wasm'' ''kd_tree.json'', MATCH_EMOJIS []]\<rparr>)"
    using empty_batch_follows_channel_state [of "initial_page :: nat list page"
          "\<lambda>cs. Inr (map (\<lambda>c. ''emoji_u2b1b.svg'') cs)"]
      empty_batch_follows_channel_state [of "initial_page :: nat list page"
          "\<lambda>cs. Inl (Thrown ''tree not loaded'')"]
      empty_batch_follows_channel_state [of "\<lparr>mosaicWorker = True, workerReady = True,
            listeners = [], promises = [],
            posted = [INIT_WASM ''build/full_mosaic.wasm'' ''kd_tree.json'' :: nat list request]\<rparr>"
          "\<lambda>cs. Inr (map (\<lambda>c. ''emoji_u2b1b.svg'') cs)"]
    by (simp add: initial_page_def try_local_def)
  from calls late failed show ?thesis by simp
qed

text \<open>
  Claim C1 fails on the code when two requests are in flight.  The first
  \<open>MATCH_COMPLETE\<close>, the reply to the first batch, resolves both promises and removes both
  listeners.  The worker then answers the second request with an \<open>ERROR\<close> message, which
  finds no listener: the promise of the second batch keeps the match of the first batch
  and never gets the result of the local fallback on its own batch.
\<close>

theorem error_reply_after_shared_reply_is_unheard:
  "inbox (run
      (\<lambda>cs. Inr (map (\<lambda>c. if 128 \<le> hd c then ''emoji_u1f534.svg'' else ''emoji_u1f535.svg'') cs))
      (map (\<lambda>c. if 128 \<le> hd c then ''emoji_u1f534.svg'' else ''emoji_u1f535.svg''))
      [PageLoad, WorkerHandles True, Deliver,
       Match [[255, 0, 0 :: nat]], Match [[0, 0, 255]],
       WorkerHandles True, Deliver, WorkerHandles False]
      initial_world)
     = [ERROR ''match failed'']
   \<and> listeners (pg (run
      (\<lambda>cs. Inr (map (\<lambda>c. if 128 \<le> hd c then ''emoji_u1f534.svg'' else ''emoji_u1f535.svg'') cs))
      (map (\<lambda>c. if 128 \<le> hd c then ''emoji_u1f534.svg'' else ''emoji_u1f535.svg''))
      [PageLoad, WorkerHandles True, Deliver,
       Match [[255, 0, 0 :: nat]], Match [[0, 0, 255]],
       WorkerHandles True, Deliver, WorkerHandles False]
      initial_world))
     = []
   \<and> promises (pg (run
      (\<lambda>cs. Inr (map (\<lambda>c. if 128 \<le> hd c then ''emoji_u1f534.svg'' else ''emoji_u1f535.svg'') cs))
      (map (\<lambda>c. if 128 \<le> hd c then ''emoji_u1f534.svg'' else ''emoji_u1f535.svg''))
      [PageLoad, WorkerHandles True, Deliver,
       Match [[255, 0, 0 :: nat]], Match [[0, 0, 255]],
       WorkerHandles True, Deliver, WorkerHandles False, Deliver]
      initial_world))
     = [Resolved [''emoji_u1f534.svg''], Resolved [''emoji_u1f534.svg'']]
   \<and> try_local
      (\<lambda>cs. Inr (map (\<lambda>c. if 128 \<le> hd c then ''emoji_u1f534.svg'' else ''emoji_u1f535.svg'') cs))
      [[0, 0, 255 :: nat]]
     = Resolved [''emoji_u1f535.svg'']"
  by (simp add: run_def step_def initial_world_def initial_page_def initWorker_def
      worker_reply_def message_event_def onmessage_def matchEmojisInWorker_def Let_def
      handleMessage_def settle_def try_local_def)

end
